theory Spec2Isabelle
  imports Complex_Main "HOL-Library.Char_ord" "HOL-Library.List_Lexorder"
    "HOL-Library.Product_Lexorder"
begin

section \<open>Conventions of the embedding\<close>

text \<open>
  The theory embeds three modules of the OPIC backend: \<^verbatim>\<open>freqdb.py\<close> (the refresh
  scheduler's table), \<^verbatim>\<open>hitsdb.py\<close> (the HITS score table with its two global cash
  increases) and \<^verbatim>\<open>opichits.py\<close> (the OPIC-HITS engine).

  \<^item> Python floats and SQLite \<^verbatim>\<open>REAL\<close> columns are read as mathematical reals: rounding is
    outside the model. Every division of the source is guarded so that its divisor is
    not zero; the guards are kept.
  \<^item> A page id is a Python \<^verbatim>\<open>str\<close>, here a \<^typ>\<open>string\<close>, compared bytewise.
  \<^item> A table is the list of its rows in rowid order, which is insertion order. The
    \<^verbatim>\<open>UNIQUE\<close> constraint on \<^verbatim>\<open>page_id\<close> is the invariant that the ids of the rows are
    distinct; \<^verbatim>\<open>INSERT OR IGNORE\<close> appends a row unless its id is there already.
  \<^item> \<^verbatim>\<open>ORDER BY c ASC\<close> walks the index on column \<^verbatim>\<open>c\<close>, whose entries are ordered by
    \<^verbatim>\<open>(c, rowid)\<close>: a stable sort of the rows. \<^verbatim>\<open>ORDER BY c DESC\<close> walks the same index
    backwards. \<^verbatim>\<open>LIMIT n\<close> keeps the first \<open>n\<close> rows, and every row when \<open>n\<close> is negative.
  \<^item> The two \<^verbatim>\<open>IN (...)\<close> clauses of \<^verbatim>\<open>hitsdb.py\<close> are built by joining quoted ids that the
    engine takes from the graph database; they are read as membership in the list of
    ids, which is what they mean when no id contains a quote. The \<^verbatim>\<open>IN (...)\<close> clause of
    \<^verbatim>\<open>freqdb.py\<close> is built from ids that the table itself stores, whatever they are:
    there the text of the clause is built as the source builds it and read as SQLite
    reads it.
\<close>

definition order_by_asc :: "('r \<Rightarrow> real) \<Rightarrow> 'r list \<Rightarrow> 'r list" where
  "order_by_asc c rows = sort_key c rows"

definition order_by_desc :: "('r \<Rightarrow> real) \<Rightarrow> 'r list \<Rightarrow> 'r list" where
  "order_by_desc c rows = rev (sort_key c rows)"

definition limit :: "int \<Rightarrow> 'r list \<Rightarrow> 'r list" where
  "limit n rows = (if n < 0 then rows else take (nat n) rows)"

section \<open>freqdb.py: the refresh scheduler's table\<close>

record FreqEntry =
  page_id :: string
  frequency :: real
  score :: real

type_synonym page_frequency = "FreqEntry list"

text \<open>\<^verbatim>\<open>__contains__\<close>: is there a row with this id.\<close>

definition freqdb_contains :: "page_frequency \<Rightarrow> string \<Rightarrow> bool" where
  "freqdb_contains db p = (filter (\<lambda>r. page_id r = p) db \<noteq> [])"

text \<open>\<^verbatim>\<open>_get_min_score\<close>: the score of the first row by ascending score, else 0.\<close>

definition get_min_score :: "page_frequency \<Rightarrow> real" where
  "get_min_score db =
     (case limit 1 (order_by_asc score db) of [] \<Rightarrow> 0 | r # _ \<Rightarrow> score r)"

definition insert_or_ignore :: "page_frequency \<Rightarrow> FreqEntry \<Rightarrow> page_frequency" where
  "insert_or_ignore db r = (if freqdb_contains db (page_id r) then db else db @ [r])"

text \<open>\<^verbatim>\<open>add(page_id, page_frequency, fresh=True)\<close>.\<close>

definition freqdb_add :: "page_frequency \<Rightarrow> string \<Rightarrow> real \<Rightarrow> bool \<Rightarrow> page_frequency" where
  "freqdb_add db p f fresh =
     (if f > 0 then
        (let s0 = get_min_score db;
             s = (if fresh then s0 + 1 / f else s0)
         in insert_or_ignore db \<lparr>page_id = p, frequency = f, score = s\<rparr>)
      else db)"

definition freqdb_delete :: "page_frequency \<Rightarrow> string \<Rightarrow> page_frequency" where
  "freqdb_delete db p = filter (\<lambda>r. page_id r \<noteq> p) db"

text \<open>
  \<^verbatim>\<open>set(page_id, page_frequency)\<close>. In the \<^verbatim>\<open>UPDATE\<close> the right-hand sides read the row as
  it was, so \<^verbatim>\<open>1.0/frequency\<close> divides by the old frequency.
\<close>

definition freqdb_set :: "page_frequency \<Rightarrow> string \<Rightarrow> real \<Rightarrow> page_frequency" where
  "freqdb_set db p f =
     (if f = 0 then freqdb_delete db p
      else if freqdb_contains db p then
        map (\<lambda>r. if page_id r = p
                  then r\<lparr>frequency := f, score := score r - 1 / frequency r + 1 / f\<rparr>
                  else r) db
      else freqdb_add db p f True)"

subsection \<open>The statement text of \<^verbatim>\<open>get_next_pages\<close>\<close>

text \<open>
  \<^verbatim>\<open>','.join(["'" + p[0] + "'" for p in pages])\<close>: every id between two quote characters,
  the results joined by commas.
\<close>

definition apostrophe :: char where
  "apostrophe = CHR 0x27"

fun join :: "string \<Rightarrow> string list \<Rightarrow> string" where
  "join sep [] = []"
| "join sep [x] = x"
| "join sep (x # y # ys) = x @ sep @ join sep (y # ys)"

definition in_list_text :: "string list \<Rightarrow> string" where
  "in_list_text pages = join '','' (map (\<lambda>p. [apostrophe] @ p @ [apostrophe]) pages)"

text \<open>
  How SQLite reads that text between the parentheses of \<^verbatim>\<open>IN (...)\<close>. A string literal
  runs from a quote to the next quote that is not doubled, and a doubled quote inside it
  stands for one quote. The text is a list of literals when it is empty or is literals
  separated by single commas. The reader moves over the text from one position to the
  next: before the opening quote of a literal, inside a literal whose characters so far
  are \<open>s\<close>, or after a quote that closes the literal \<open>s\<close> unless another quote follows.
\<close>

datatype position = Opening | Body string | Closing string

fun literals :: "string list \<Rightarrow> position \<Rightarrow> string \<Rightarrow> string list option" where
  "literals lits Opening [] = None"
| "literals lits Opening (c # cs) =
     (if c = apostrophe then literals lits (Body []) cs else None)"
| "literals lits (Body s) [] = None"
| "literals lits (Body s) (c # cs) =
     (if c = apostrophe then literals lits (Closing s) cs
      else literals lits (Body (s @ [c])) cs)"
| "literals lits (Closing s) [] = Some (lits @ [s])"
| "literals lits (Closing s) (c # cs) =
     (if c = apostrophe then literals lits (Body (s @ [c])) cs
      else if c = CHR '','' then literals (lits @ [s]) Opening cs
      else None)"

text \<open>
  A text that is not a list of literals may still be a statement that SQLite runs (an id
  such as \<^verbatim>\<open>a' OR 'a'='a\<close> makes one). It is certainly refused when a literal is left open at
  its end, so that the literal runs on to the end of the statement, and no character
  outside the literals could start a comment, a quoted name, a parameter or a second
  statement: here, when the characters outside the literals are letters, digits, commas
  and blanks. \<open>open_literal inside text\<close> is \<open>Some True\<close> for such a text, \<open>Some False\<close> when
  every literal is closed, and \<open>None\<close> when a character outside the literals is of
  another kind.
\<close>

definition outside_char :: "char \<Rightarrow> bool" where
  "outside_char c =
     (c = CHR '','' \<or> c = CHR '' '' \<or> (CHR ''0'' \<le> c \<and> c \<le> CHR ''9'') \<or>
      (CHR ''A'' \<le> c \<and> c \<le> CHR ''Z'') \<or> (CHR ''a'' \<le> c \<and> c \<le> CHR ''z''))"

fun open_literal :: "bool \<Rightarrow> string \<Rightarrow> bool option" where
  "open_literal inside [] = Some inside"
| "open_literal inside (c # cs) =
     (if c = apostrophe then open_literal (\<not> inside) cs
      else if inside \<or> outside_char c then open_literal inside cs
      else None)"

text \<open>
  The three readings: a list of literals; a text that SQLite refuses with
  \<^verbatim>\<open>unrecognized token\<close> or \<^verbatim>\<open>syntax error\<close>; any other text, and any text with a NUL
  character (which ends the statement text, or is refused by the \<^verbatim>\<open>sqlite3\<close> module,
  depending on its version), about which the model says nothing.
\<close>

datatype in_list = In_list "string list" | Refused | Unread

definition read_in_list :: "string \<Rightarrow> in_list" where
  "read_in_list text =
     (if CHR 0x00 \<in> set text then Unread
      else if text = [] then In_list []
      else case literals [] Opening text of
             Some lits \<Rightarrow> In_list lits
           | None \<Rightarrow> if open_literal False text = Some True then Refused else Unread)"

text \<open>
  \<^verbatim>\<open>get_next_pages(n)\<close>: the \<^verbatim>\<open>SELECT\<close>, then the \<^verbatim>\<open>UPDATE\<close> whose text is built from the
  selected ids, then the return of the selected ids with the table updated. When SQLite
  refuses the text, \<^verbatim>\<open>execute\<close> raises \<^verbatim>\<open>sqlite3.OperationalError\<close>: nothing is returned and
  the table is as it was. \<open>Statement_not_modelled\<close> stands for the texts that the model
  does not read.
\<close>

datatype sql_error = OperationalError | Statement_not_modelled

definition get_next_pages ::
  "page_frequency \<Rightarrow> int \<Rightarrow> sql_error + (string list \<times> page_frequency)" where
  "get_next_pages db n =
     (let pages = map page_id (limit n (order_by_asc score db))
      in case read_in_list (in_list_text pages) of
           In_list ids \<Rightarrow>
             Inr (pages,
                  map (\<lambda>r. if page_id r \<in> set ids
                            then r\<lparr>score := score r + 1 / frequency r\<rparr>
                            else r) db)
         | Refused \<Rightarrow> Inl OperationalError
         | Unread \<Rightarrow> Inl Statement_not_modelled)"

text \<open>An id that the statement text carries as it is: no quote and no NUL character.\<close>

definition plain_id :: "string \<Rightarrow> bool" where
  "plain_id p = (apostrophe \<notin> set p \<and> CHR 0x00 \<notin> set p)"

text \<open>
  The rows the interface can produce: distinct ids (the \<^verbatim>\<open>UNIQUE\<close> constraint) and no zero
  frequency (\<^verbatim>\<open>add\<close> stores positive frequencies only, \<^verbatim>\<open>set\<close> deletes on zero). SQLite
  would turn a division by a zero frequency into \<^verbatim>\<open>NULL\<close>, which the model does not have.
\<close>

definition freqdb_wf :: "page_frequency \<Rightarrow> bool" where
  "freqdb_wf db = (distinct (map page_id db) \<and> list_all (\<lambda>r. frequency r \<noteq> 0) db)"

text \<open>
  The order a stable sort by \<open>f\<close> puts two rows of \<open>xs\<close> in: by \<open>f\<close>, then by position.
\<close>

definition stable_before :: "('r \<Rightarrow> real) \<Rightarrow> 'r list \<Rightarrow> 'r \<Rightarrow> 'r \<Rightarrow> bool" where
  "stable_before f xs a b =
     (f a < f b \<or> (f a = f b \<and> (\<exists>us vs ws. xs = us @ a # vs @ b # ws)))"

section \<open>hitsdb.py: the HITS score table\<close>

text \<open>The six fields of \<^verbatim>\<open>HitsScore\<close>.\<close>

record HitsScore =
  h_history :: real
  h_cash :: real
  h_last :: real
  a_history :: real
  a_cash :: real
  a_last :: real

text \<open>
  The database: the rows of \<^verbatim>\<open>page_score\<close>, the two rows of \<^verbatim>\<open>global_increase\<close> (named
  \<^verbatim>\<open>'h_cash'\<close> and \<^verbatim>\<open>'a_cash'\<close>), and the two attributes \<^verbatim>\<open>_h_cash_increase\<close> and
  \<^verbatim>\<open>_a_cash_increase\<close> of the connection object.
\<close>

record HitsDB =
  page_score :: "(string \<times> HitsScore) list"
  global_increase_h_cash :: real
  global_increase_a_cash :: real
  h_cash_increase :: real
  a_cash_increase :: real

text \<open>
  \<^verbatim>\<open>SQLite.__init__\<close> on a database that has no tables yet: both tables are created, both
  rows of \<^verbatim>\<open>global_increase\<close> are inserted with value 0.0 and read back.
\<close>

definition hitsdb_create :: HitsDB where
  "hitsdb_create =
     \<lparr>page_score = [], global_increase_h_cash = 0, global_increase_a_cash = 0,
      h_cash_increase = 0, a_cash_increase = 0\<rparr>"

text \<open>
  \<^verbatim>\<open>SQLite.__init__\<close> on a database that a connection has left behind: the tables exist,
  \<^verbatim>\<open>INSERT OR IGNORE\<close> leaves the two rows alone, and the attributes of the new connection
  are read from them (\<^verbatim>\<open>_restore_a_cash_increase\<close>, \<^verbatim>\<open>_restore_h_cash_increase\<close>).
\<close>

definition hitsdb_reopen :: "HitsDB \<Rightarrow> HitsDB" where
  "hitsdb_reopen db =
     db\<lparr>a_cash_increase := global_increase_a_cash db,
        h_cash_increase := global_increase_h_cash db\<rparr>"

text \<open>\<^verbatim>\<open>close\<close>: \<^verbatim>\<open>_save_a_cash_increase\<close>, then \<^verbatim>\<open>_save_h_cash_increase\<close>.\<close>

definition hitsdb_close :: "HitsDB \<Rightarrow> HitsDB" where
  "hitsdb_close db =
     db\<lparr>global_increase_a_cash := a_cash_increase db,
        global_increase_h_cash := h_cash_increase db\<rparr>"

definition hitsdb_clear :: "HitsDB \<Rightarrow> HitsDB" where
  "hitsdb_clear db = db\<lparr>page_score := []\<rparr>"

definition hitsdb_contains :: "HitsDB \<Rightarrow> string \<Rightarrow> bool" where
  "hitsdb_contains db p = (map_of (page_score db) p \<noteq> None)"

text \<open>What \<^verbatim>\<open>add\<close> and \<^verbatim>\<open>set\<close> write for a score: the cash fields less the increases.\<close>

definition stored :: "HitsDB \<Rightarrow> HitsScore \<Rightarrow> HitsScore" where
  "stored db s =
     s\<lparr>h_cash := h_cash s - h_cash_increase db, a_cash := a_cash s - a_cash_increase db\<rparr>"

definition hitsdb_add :: "HitsDB \<Rightarrow> string \<Rightarrow> HitsScore \<Rightarrow> HitsDB" where
  "hitsdb_add db p s =
     (if hitsdb_contains db p then db
      else db\<lparr>page_score := page_score db @ [(p, stored db s)]\<rparr>)"

text \<open>\<^verbatim>\<open>get\<close>: the first row with the id, each cash field plus its own increase.\<close>

definition hitsdb_get :: "HitsDB \<Rightarrow> string \<Rightarrow> HitsScore option" where
  "hitsdb_get db p =
     (case map_of (page_score db) p of
        None \<Rightarrow> None
      | Some s \<Rightarrow> Some (s\<lparr>h_cash := h_cash s + h_cash_increase db,
                          a_cash := a_cash s + a_cash_increase db\<rparr>))"

definition hitsdb_set :: "HitsDB \<Rightarrow> string \<Rightarrow> HitsScore \<Rightarrow> HitsDB" where
  "hitsdb_set db p s =
     db\<lparr>page_score := map (\<lambda>(q, old). if q = p then (q, stored db s) else (q, old))
                            (page_score db)\<rparr>"

definition hitsdb_delete :: "HitsDB \<Rightarrow> string \<Rightarrow> HitsDB" where
  "hitsdb_delete db p = db\<lparr>page_score := filter (\<lambda>(q, s). q \<noteq> p) (page_score db)\<rparr>"

text \<open>
  \<^verbatim>\<open>iteritems\<close>: the source adds \<^verbatim>\<open>_h_cash_increase\<close> to column 2 (\<^verbatim>\<open>h_cash\<close>) and again
  \<^verbatim>\<open>_h_cash_increase\<close> to column 5 (\<^verbatim>\<open>a_cash\<close>).
\<close>

definition hitsdb_iteritems :: "HitsDB \<Rightarrow> (string \<times> HitsScore) list" where
  "hitsdb_iteritems db =
     map (\<lambda>(q, s). (q, s\<lparr>h_cash := h_cash s + h_cash_increase db,
                           a_cash := a_cash s + h_cash_increase db\<rparr>))
         (page_score db)"

definition get_highest_h_cash :: "HitsDB \<Rightarrow> int \<Rightarrow> (string \<times> real) list" where
  "get_highest_h_cash db n =
     map (\<lambda>(q, s). (q, h_cash s + h_cash_increase db))
         (limit n (order_by_desc (\<lambda>(q, s). h_cash s) (page_score db)))"

definition get_highest_a_cash :: "HitsDB \<Rightarrow> int \<Rightarrow> (string \<times> real) list" where
  "get_highest_a_cash db n =
     map (\<lambda>(q, s). (q, a_cash s + a_cash_increase db))
         (limit n (order_by_desc (\<lambda>(q, s). a_cash s) (page_score db)))"

definition increase_all_cash :: "HitsDB \<Rightarrow> real \<Rightarrow> real \<Rightarrow> HitsDB" where
  "increase_all_cash db h a =
     db\<lparr>a_cash_increase := a_cash_increase db + a,
        h_cash_increase := h_cash_increase db + h\<rparr>"

definition increase_h_cash :: "HitsDB \<Rightarrow> string list \<Rightarrow> real \<Rightarrow> HitsDB" where
  "increase_h_cash db page_id_list c =
     db\<lparr>page_score := map (\<lambda>(q, s). if q \<in> set page_id_list
                                    then (q, s\<lparr>h_cash := h_cash s + c\<rparr>) else (q, s))
                            (page_score db)\<rparr>"

definition increase_a_cash :: "HitsDB \<Rightarrow> string list \<Rightarrow> real \<Rightarrow> HitsDB" where
  "increase_a_cash db page_id_list c =
     db\<lparr>page_score := map (\<lambda>(q, s). if q \<in> set page_id_list
                                    then (q, s\<lparr>a_cash := a_cash s + c\<rparr>) else (q, s))
                            (page_score db)\<rparr>"

definition get_count :: "HitsDB \<Rightarrow> nat" where
  "get_count db = length (page_score db)"

text \<open>\<^verbatim>\<open>Sum(h_history)\<close> is \<^verbatim>\<open>NULL\<close> on an empty table, and \<^verbatim>\<open>NULL or 0.0\<close> is 0.0.\<close>

definition get_h_total :: "HitsDB \<Rightarrow> real" where
  "get_h_total db = (\<Sum>(q, s)\<leftarrow>page_score db. h_history s)"

definition get_a_total :: "HitsDB \<Rightarrow> real" where
  "get_a_total db = (\<Sum>(q, s)\<leftarrow>page_score db. a_history s)"

subsection \<open>The reference table of the cash-delta equivalence\<close>

text \<open>
  The naive implementation the specification compares with: a table that stores every
  score as it is read, and whose \<^verbatim>\<open>increase_all_cash\<close> adds to every row.
\<close>

type_synonym naive_db = "(string \<times> HitsScore) list"

definition naive_add :: "naive_db \<Rightarrow> string \<Rightarrow> HitsScore \<Rightarrow> naive_db" where
  "naive_add rows p s = (if map_of rows p \<noteq> None then rows else rows @ [(p, s)])"

definition naive_set :: "naive_db \<Rightarrow> string \<Rightarrow> HitsScore \<Rightarrow> naive_db" where
  "naive_set rows p s = map (\<lambda>(q, old). if q = p then (q, s) else (q, old)) rows"

definition naive_increase_h_cash :: "naive_db \<Rightarrow> string list \<Rightarrow> real \<Rightarrow> naive_db" where
  "naive_increase_h_cash rows ids c =
     map (\<lambda>(q, s). if q \<in> set ids then (q, s\<lparr>h_cash := h_cash s + c\<rparr>) else (q, s)) rows"

definition naive_increase_a_cash :: "naive_db \<Rightarrow> string list \<Rightarrow> real \<Rightarrow> naive_db" where
  "naive_increase_a_cash rows ids c =
     map (\<lambda>(q, s). if q \<in> set ids then (q, s\<lparr>a_cash := a_cash s + c\<rparr>) else (q, s)) rows"

definition naive_increase_all_cash :: "naive_db \<Rightarrow> real \<Rightarrow> real \<Rightarrow> naive_db" where
  "naive_increase_all_cash rows h a =
     map (\<lambda>(q, s). (q, s\<lparr>h_cash := h_cash s + h, a_cash := a_cash s + a\<rparr>)) rows"

definition naive_get :: "naive_db \<Rightarrow> string \<Rightarrow> HitsScore option" where
  "naive_get rows p = map_of rows p"

definition naive_iteritems :: "naive_db \<Rightarrow> (string \<times> HitsScore) list" where
  "naive_iteritems rows = rows"

definition naive_get_highest_h_cash :: "naive_db \<Rightarrow> int \<Rightarrow> (string \<times> real) list" where
  "naive_get_highest_h_cash rows n =
     map (\<lambda>(q, s). (q, h_cash s)) (limit n (order_by_desc (\<lambda>(q, s). h_cash s) rows))"

definition naive_get_highest_a_cash :: "naive_db \<Rightarrow> int \<Rightarrow> (string \<times> real) list" where
  "naive_get_highest_a_cash rows n =
     map (\<lambda>(q, s). (q, a_cash s)) (limit n (order_by_desc (\<lambda>(q, s). a_cash s) rows))"

text \<open>The calls of the equivalence, and their runs on the two tables.\<close>

datatype hits_call =
  Call_add string HitsScore
| Call_set string HitsScore
| Call_increase_h_cash "string list" real
| Call_increase_a_cash "string list" real
| Call_increase_all_cash real real

fun hitsdb_call :: "HitsDB \<Rightarrow> hits_call \<Rightarrow> HitsDB" where
  "hitsdb_call db (Call_add p s) = hitsdb_add db p s"
| "hitsdb_call db (Call_set p s) = hitsdb_set db p s"
| "hitsdb_call db (Call_increase_h_cash ids c) = increase_h_cash db ids c"
| "hitsdb_call db (Call_increase_a_cash ids c) = increase_a_cash db ids c"
| "hitsdb_call db (Call_increase_all_cash h a) = increase_all_cash db h a"

fun naive_call :: "naive_db \<Rightarrow> hits_call \<Rightarrow> naive_db" where
  "naive_call rows (Call_add p s) = naive_add rows p s"
| "naive_call rows (Call_set p s) = naive_set rows p s"
| "naive_call rows (Call_increase_h_cash ids c) = naive_increase_h_cash rows ids c"
| "naive_call rows (Call_increase_a_cash ids c) = naive_increase_a_cash rows ids c"
| "naive_call rows (Call_increase_all_cash h a) = naive_increase_all_cash rows h a"

definition hitsdb_calls :: "hits_call list \<Rightarrow> HitsDB" where
  "hitsdb_calls cs = foldl hitsdb_call hitsdb_create cs"

definition naive_calls :: "hits_call list \<Rightarrow> naive_db" where
  "naive_calls cs = foldl naive_call [] cs"

section \<open>opichits.py: the OPIC-HITS engine\<close>

text \<open>
  The engine reads two databases whose modules it imports: the graph (\<^verbatim>\<open>inodes\<close>,
  \<^verbatim>\<open>successors\<close>, \<^verbatim>\<open>predecessors\<close>) and the relevance of a page (\<^verbatim>\<open>get\<close>, \<^verbatim>\<open>None\<close> when
  unknown). It never writes to them, so they are parameters of the model: any three
  functions, any relevance.
\<close>

record graphdb =
  inodes :: "string list"
  successors :: "string \<Rightarrow> string list"
  predecessors :: "string \<Rightarrow> string list"

text \<open>
  The attributes of an \<^verbatim>\<open>OpicHits\<close> object. \<open>time_window\<close> is \<open>None\<close> for Python's \<^verbatim>\<open>None\<close>;
  \<^verbatim>\<open>False\<close> is the number 0.
\<close>

record OpicHits =
  graph :: graphdb
  scores :: HitsDB
  n_pages :: nat
  h_total :: real
  a_total :: real
  relevance :: "string \<Rightarrow> real option"
  to_update :: "string list"
  is_closed :: bool
  time_window :: "real option"
  time :: real
  virtual_page :: HitsScore

text \<open>
  What the engine can raise: reading a field of \<^verbatim>\<open>None\<close>, and reading the local variable
  \<^verbatim>\<open>mixed\<close> of \<^verbatim>\<open>update\<close> before any iteration has assigned it. An operation that raises
  returns the error with the engine as the raise leaves it.
\<close>

datatype error = AttributeError | NameError

text \<open>\<^verbatim>\<open>not self._time_window\<close>: the window is \<^verbatim>\<open>None\<close>, or \<^verbatim>\<open>False\<close>, or 0.\<close>

definition no_time_window :: "OpicHits \<Rightarrow> bool" where
  "no_time_window e = (case time_window e of None \<Rightarrow> True | Some w \<Rightarrow> w = 0)"

definition mark_update :: "OpicHits \<Rightarrow> string \<Rightarrow> OpicHits" where
  "mark_update e p = e\<lparr>to_update := to_update e @ [p]\<rparr>"

definition add_page :: "OpicHits \<Rightarrow> string \<Rightarrow> HitsScore option \<times> OpicHits" where
  "add_page e p =
     (if \<not> hitsdb_contains (scores e) p then
        (let new_score = \<lparr>h_history = 0, h_cash = 1, h_last = time e,
                          a_history = 0, a_cash = 1, a_last = time e\<rparr>
         in (Some new_score,
             e\<lparr>n_pages := n_pages e + 1, scores := hitsdb_add (scores e) p new_score\<rparr>))
      else (None, e))"

text \<open>\<^verbatim>\<open>_get_page_score\<close>: the score may be \<^verbatim>\<open>None\<close> as far as the code of this function goes.\<close>

definition get_page_score :: "OpicHits \<Rightarrow> string \<Rightarrow> HitsScore option \<times> OpicHits" where
  "get_page_score e p =
     (case add_page e p of
        (Some s, e') \<Rightarrow> (Some s, e')
      | (None, e') \<Rightarrow> (hitsdb_get (scores e') p, e'))"

text \<open>\<^verbatim>\<open>_history_interpolator\<close>, with the window \<open>w\<close> that the caller has found set.\<close>

definition history_interpolator :: "real \<Rightarrow> real \<Rightarrow> real \<Rightarrow> real \<Rightarrow> real" where
  "history_interpolator w delta history cash =
     (let f = delta / w
      in if f < 1 then history * (1 - f) + cash else cash / f)"

definition updated_page_h :: "OpicHits \<Rightarrow> HitsScore \<Rightarrow> HitsScore" where
  "updated_page_h e ps =
     (let h_history_new =
            (case time_window e of
               None \<Rightarrow> h_history ps + h_cash ps
             | Some w \<Rightarrow>
                 if w = 0 then h_history ps + h_cash ps
                 else history_interpolator w (time e - h_last ps)
                        (h_history ps) (h_cash ps))
      in \<lparr>h_history = h_history_new, h_cash = 0, h_last = time e,
          a_history = a_history ps, a_cash = a_cash ps,
          a_last = a_last ps\<rparr>)"

definition updated_page_a :: "OpicHits \<Rightarrow> HitsScore \<Rightarrow> HitsScore" where
  "updated_page_a e ps =
     (let a_history_new =
            (case time_window e of
               None \<Rightarrow> a_history ps + a_cash ps
             | Some w \<Rightarrow>
                 if w = 0 then a_history ps + a_cash ps
                 else history_interpolator w (time e - a_last ps)
                        (a_history ps) (a_cash ps))
      in \<lparr>h_history = h_history ps, h_cash = h_cash ps,
          h_last = h_last ps,
          a_history = a_history_new, a_cash = 0, a_last = time e\<rparr>)"

definition update_virtual_page :: "OpicHits \<Rightarrow> OpicHits" where
  "update_virtual_page e =
     (if n_pages e > 0 then
        (let h_dist = a_cash (virtual_page e) / real (n_pages e);
             a_dist = h_cash (virtual_page e) / real (n_pages e)
         in e\<lparr>scores := increase_all_cash (scores e) h_dist a_dist,
              virtual_page := updated_page_h e (updated_page_a e (virtual_page e))\<rparr>)
      else e)"

definition update_page_h :: "OpicHits \<Rightarrow> string \<Rightarrow> (error \<times> OpicHits) + OpicHits" where
  "update_page_h e p =
     (case get_page_score e p of
        (None, e1) \<Rightarrow> Inl (AttributeError, e1)
      | (Some sc, e1) \<Rightarrow>
          (let succ = successors (graph e1) p;
               a_dist = h_cash sc / (real (length succ) + 1);
               e2 = e1\<lparr>scores := increase_a_cash (scores e1) succ a_dist,
                       virtual_page :=
                         (virtual_page e1)\<lparr>a_cash := a_cash (virtual_page e1) + a_dist\<rparr>\<rparr>;
               new_score = updated_page_h e2 sc
           in Inr (e2\<lparr>scores := hitsdb_set (scores e2) p new_score,
                       h_total := h_total e2 + (h_history new_score - h_history sc),
                       time := time e2 + h_cash sc\<rparr>)))"

text \<open>
  The share of each predecessor, the expression that \<^verbatim>\<open>_update_page_a\<close> assigns to \<^verbatim>\<open>z\<close>,
  and the relevance it reads: \<^verbatim>\<open>self._relevance.get(page_id) or 0.5\<close>, where \<^verbatim>\<open>None\<close> and
  0.0 both give 0.5.
\<close>

definition z_share :: "real \<Rightarrow> nat \<Rightarrow> real" where
  "z_share r N =
     (if N > 0
      then 2 * r / real N * (2 * real N / (real N + 1) * (1 - r) + (r - 0.5))
      else 0)"

definition relevance_or_half :: "OpicHits \<Rightarrow> string \<Rightarrow> real" where
  "relevance_or_half e p =
     (case relevance e p of None \<Rightarrow> 0.5 | Some v \<Rightarrow> if v = 0 then 0.5 else v)"

definition update_page_a :: "OpicHits \<Rightarrow> string \<Rightarrow> (error \<times> OpicHits) + OpicHits" where
  "update_page_a e p =
     (case get_page_score e p of
        (None, e1) \<Rightarrow> Inl (AttributeError, e1)
      | (Some sc, e1) \<Rightarrow>
          (let pred = predecessors (graph e1) p;
               N = length pred;
               r = relevance_or_half e1 p;
               z = z_share r N;
               e2 = e1\<lparr>scores := increase_h_cash (scores e1) pred (a_cash sc * z),
                       virtual_page :=
                         (virtual_page e1)\<lparr>h_cash := h_cash (virtual_page e1)
                                                      + a_cash sc * (1 - z * real N)\<rparr>\<rparr>;
               new_score = updated_page_a e2 sc
           in Inr (e2\<lparr>scores := hitsdb_set (scores e2) p new_score,
                       a_total := a_total e2 + (a_history new_score - a_history sc),
                       time := time e2 + a_cash sc\<rparr>)))"

text \<open>
  The list \<^verbatim>\<open>mixed\<close> of one iteration of \<^verbatim>\<open>update\<close>: triples \<open>(cash, page_id, is_hub)\<close> in
  descending order, the first \<open>n_updates\<close> of them.
\<close>

type_synonym mixed = "(real \<times> string \<times> bool) list"

definition mixed_batch :: "OpicHits \<Rightarrow> nat \<Rightarrow> mixed" where
  "mixed_batch e n_updates =
     (let highest_h = get_highest_h_cash (scores e) (int n_updates);
          highest_a = get_highest_a_cash (scores e) (int n_updates)
      in take n_updates
           (rev (sort (map (\<lambda>(page_id, cash). (cash, page_id, True)) highest_h @
                       map (\<lambda>(page_id, cash). (cash, page_id, False)) highest_a))))"

text \<open>The inner loop of \<^verbatim>\<open>update\<close>, over \<^verbatim>\<open>mixed\<close>.\<close>

fun update_pages :: "mixed \<Rightarrow> OpicHits \<Rightarrow> (error \<times> OpicHits) + OpicHits" where
  "update_pages [] e = Inr e"
| "update_pages ((cash, p, is_hub) # ms) e =
     (case (if is_hub then update_page_h e p else update_page_a e p) of
        Inl x \<Rightarrow> Inl x
      | Inr e' \<Rightarrow> update_pages ms e')"

text \<open>
  The outer loop, \<^verbatim>\<open>for i in xrange(n_iter)\<close>: the engine and the value of \<^verbatim>\<open>mixed\<close>, which
  is unbound (\<open>None\<close>) until the first iteration.
\<close>

fun update_iterations ::
  "nat \<Rightarrow> nat \<Rightarrow> OpicHits \<Rightarrow> mixed option \<Rightarrow> (error \<times> OpicHits) + (OpicHits \<times> mixed option)"
where
  "update_iterations 0 n_updates e m = Inr (e, m)"
| "update_iterations (Suc i) n_updates e m =
     (let mixed = mixed_batch e n_updates
      in case update_pages mixed e of
           Inl x \<Rightarrow> Inl x
         | Inr e' \<Rightarrow> update_iterations i n_updates (update_virtual_page e') (Some mixed))"

definition hub_pages :: "mixed \<Rightarrow> string list" where
  "hub_pages ms = map (\<lambda>(cash, p, hub). p) (filter (\<lambda>(cash, p, hub). hub) ms)"

definition authority_pages :: "mixed \<Rightarrow> string list" where
  "authority_pages ms = map (\<lambda>(cash, p, hub). p) (filter (\<lambda>(cash, p, hub). \<not> hub) ms)"

definition update ::
  "OpicHits \<Rightarrow> int \<Rightarrow> (error \<times> OpicHits) + (OpicHits \<times> string list \<times> string list)"
where
  "update e n_iter =
     (let n_updates = 20 * max 1 (length (to_update e))
      in case update_iterations (nat n_iter) n_updates e None of
           Inl x \<Rightarrow> Inl x
         | Inr (e1, m) \<Rightarrow>
             (let e2 = e1\<lparr>to_update := []\<rparr>
              in case m of
                   None \<Rightarrow> Inl (NameError, e2)
                 | Some mixed \<Rightarrow> Inr (e2, hub_pages mixed, authority_pages mixed)))"

definition relative_score :: "OpicHits \<Rightarrow> HitsScore \<Rightarrow> real \<times> real" where
  "relative_score e sc =
     (if h_total e > 0 then h_history sc / h_total e else 0,
      if a_total e > 0 then a_history sc / a_total e else 0)"

definition get_scores :: "OpicHits \<Rightarrow> string \<Rightarrow> (error \<times> OpicHits) + (OpicHits \<times> real \<times> real)" where
  "get_scores e p =
     (case get_page_score e p of
        (None, e1) \<Rightarrow> Inl (AttributeError, e1)
      | (Some sc, e1) \<Rightarrow> Inr (e1, relative_score e1 sc))"

definition close :: "OpicHits \<Rightarrow> OpicHits" where
  "close e = e\<lparr>scores := (if \<not> is_closed e then hitsdb_close (scores e) else scores e),
               is_closed := True\<rparr>"

text \<open>
  \<^verbatim>\<open>OpicHits.__init__\<close> with its four arguments given: the counters are read from the
  score table, the clock starts at 0.0, the virtual page at cash 1.0 and 1.0, and every
  node of the graph gets a score row.
\<close>

definition add_pages :: "OpicHits \<Rightarrow> string list \<Rightarrow> OpicHits" where
  "add_pages e ps = foldl (\<lambda>e p. snd (add_page e p)) e ps"

definition OpicHits_init ::
  "graphdb \<Rightarrow> HitsDB \<Rightarrow> real option \<Rightarrow> (string \<Rightarrow> real option) \<Rightarrow> OpicHits" where
  "OpicHits_init db_graph db_scores tw db_relevance =
     add_pages
       \<lparr>graph = db_graph, scores = db_scores, n_pages = get_count db_scores,
        h_total = get_h_total db_scores, a_total = get_a_total db_scores,
        relevance = db_relevance, to_update = [], is_closed = False,
        time_window = tw, time = 0,
        virtual_page = \<lparr>h_history = 0, h_cash = 1, h_last = 0,
                        a_history = 0, a_cash = 1, a_last = 0\<rparr>\<rparr>
       (inodes db_graph)"

text \<open>
  Stopping and starting again: the engine is closed, a new connection is opened on the
  database it leaves, and a new engine is constructed over it with the same graph,
  window and relevance.
\<close>

definition restart :: "OpicHits \<Rightarrow> OpicHits" where
  "restart e =
     OpicHits_init (graph e) (hitsdb_reopen (scores (close e))) (time_window e) (relevance e)"

section \<open>Vocabulary of the properties\<close>

text \<open>The engine as a call leaves it, whether it returned or raised.\<close>

definition engine_of :: "(error \<times> OpicHits) + (OpicHits \<times> 'a) \<Rightarrow> OpicHits" where
  "engine_of r = (case r of Inl (err, e) \<Rightarrow> e | Inr (e, x) \<Rightarrow> e)"



text \<open>The \<^verbatim>\<open>UNIQUE\<close> constraint of \<^verbatim>\<open>page_score\<close>.\<close>

definition hitsdb_unique :: "HitsDB \<Rightarrow> bool" where
  "hitsdb_unique db = distinct (map fst (page_score db))"


text \<open>The two histories of a page, as \<^verbatim>\<open>get\<close> reads them.\<close>

definition hitsdb_history :: "HitsDB \<Rightarrow> string \<Rightarrow> (real \<times> real) option" where
  "hitsdb_history db p =
     (case hitsdb_get db p of
        None \<Rightarrow> None
      | Some s \<Rightarrow> Some (h_history s, a_history s))"

definition history_of :: "OpicHits \<Rightarrow> string \<Rightarrow> (real \<times> real) option" where
  "history_of e p = hitsdb_history (scores e) p"

text \<open>The public operations that a history can see, and a run of them.\<close>

datatype engine_op =
  Op_add_page string
| Op_mark_update string
| Op_update int
| Op_get_scores string

fun run_op :: "OpicHits \<Rightarrow> engine_op \<Rightarrow> OpicHits" where
  "run_op e (Op_add_page p) = snd (add_page e p)"
| "run_op e (Op_mark_update p) = mark_update e p"
| "run_op e (Op_update n) = engine_of (update e n)"
| "run_op e (Op_get_scores p) = engine_of (get_scores e p)"

definition run_ops :: "OpicHits \<Rightarrow> engine_op list \<Rightarrow> OpicHits" where
  "run_ops e ops = foldl run_op e ops"

text \<open>No cash below zero, in the table as \<^verbatim>\<open>get\<close> reads it and in the virtual page.\<close>

definition rows_nonneg :: "HitsDB \<Rightarrow> bool" where
  "rows_nonneg db =
     list_all (\<lambda>(q, s). 0 \<le> h_cash s + h_cash_increase db \<and>
                         0 \<le> a_cash s + a_cash_increase db)
              (page_score db)"

definition cash_nonneg :: "OpicHits \<Rightarrow> bool" where
  "cash_nonneg e =
     (rows_nonneg (scores e) \<and>
      0 \<le> h_cash (virtual_page e) \<and> 0 \<le> a_cash (virtual_page e))"

text \<open>
  The authority update of \<open>p\<close> hands out no negative share: neither the share \<open>z\<close> of a
  predecessor nor the share \<open>1 - z N\<close> of the virtual page.
\<close>

definition shares_nonneg :: "OpicHits \<Rightarrow> string \<Rightarrow> bool" where
  "shares_nonneg e p =
     (let N = length (predecessors (graph e) p);
          z = z_share (relevance_or_half e p) N
      in 0 \<le> z \<and> 0 \<le> 1 - z * real N)"

text \<open>The score table as \<^verbatim>\<open>get\<close> reads it: every row with its two increases added.\<close>

definition as_read :: "HitsDB \<Rightarrow> naive_db" where
  "as_read db =
     map (\<lambda>(q, s). (q, s\<lparr>h_cash := h_cash s + h_cash_increase db,
                           a_cash := a_cash s + a_cash_increase db\<rparr>))
         (page_score db)"

text \<open>
  What the constructor establishes and every operation keeps: the ids of the score rows
  are distinct and the page counter is the number of score rows.
\<close>

definition engine_inv :: "OpicHits \<Rightarrow> bool" where
  "engine_inv e = (hitsdb_unique (scores e) \<and> n_pages e = get_count (scores e))"

text \<open>
  From one engine to a later one: the graph, the relevance and the window are the same,
  no cash of the later one is below zero, and no history of a page has decreased.
\<close>

definition history_le :: "HitsDB \<Rightarrow> HitsDB \<Rightarrow> bool" where
  "history_le db db' =
     (\<forall>p h a. hitsdb_history db p = Some (h, a) \<longrightarrow>
        (\<exists>h' a'. hitsdb_history db' p = Some (h', a') \<and> h \<le> h' \<and> a \<le> a'))"

definition mono_step :: "OpicHits \<Rightarrow> OpicHits \<Rightarrow> bool" where
  "mono_step e e' =
     (graph e' = graph e \<and> relevance e' = relevance e \<and> time_window e' = time_window e \<and>
      cash_nonneg e' \<and> history_le (scores e) (scores e'))"

text \<open>
  The setting in which the histories are monotone: no time window, no cash below zero,
  and no negative share in the authority update of any page.
\<close>

definition monotone_setting :: "OpicHits \<Rightarrow> bool" where
  "monotone_setting e =
     (no_time_window e \<and> cash_nonneg e \<and> (\<forall>p. shares_nonneg e p))"

section \<open>Concrete graphs and engines\<close>

text \<open>A graph of pages without links, and a relevance database that knows no page.\<close>

definition isolated_pages :: "string list \<Rightarrow> graphdb" where
  "isolated_pages ps = \<lparr>inodes = ps, successors = (\<lambda>p. []), predecessors = (\<lambda>p. [])\<rparr>"

definition no_relevance :: "string \<Rightarrow> real option" where
  "no_relevance p = None"

text \<open>A new engine over one page, and one over eleven pages, each on a new score table.\<close>

definition engine_1 :: OpicHits where
  "engine_1 = OpicHits_init (isolated_pages [''a'']) hitsdb_create None no_relevance"

definition engine_11 :: OpicHits where
  "engine_11 =
     OpicHits_init
       (isolated_pages [''a'', ''b'', ''c'', ''d'', ''e'', ''f'', ''g'', ''h'', ''i'', ''j'', ''k''])
       hitsdb_create None no_relevance"

text \<open>
  Two pages that link to each other; one page that links to itself; a page \<open>a\<close> whose
  list of successors names \<open>b\<close> twice. A new engine over each.
\<close>

definition graph_pair :: graphdb where
  "graph_pair =
     \<lparr>inodes = [''a'', ''b''],
      successors = (\<lambda>p. if p = ''a'' then [''b''] else if p = ''b'' then [''a''] else []),
      predecessors = (\<lambda>p. if p = ''a'' then [''b''] else if p = ''b'' then [''a''] else [])\<rparr>"



definition engine_pair :: OpicHits where
  "engine_pair = OpicHits_init graph_pair hitsdb_create None no_relevance"



text \<open>
  Seven pages \<open>a\<close> to \<open>g\<close>, each linking to the six others, and a page \<open>x\<close> without
  links; every page has relevance 0.75. A new engine over them.
\<close>

definition seven_pages :: "string list" where
  "seven_pages = [''a'', ''b'', ''c'', ''d'', ''e'', ''f'', ''g'']"

definition graph_7x :: graphdb where
  "graph_7x =
     \<lparr>inodes = seven_pages @ [''x''],
      successors = (\<lambda>p. if p \<in> set seven_pages then removeAll p seven_pages else []),
      predecessors = (\<lambda>p. if p \<in> set seven_pages then removeAll p seven_pages else [])\<rparr>"

definition relevance_3_4 :: "string \<Rightarrow> real option" where
  "relevance_3_4 p = Some (3 / 4)"

definition engine_7x :: OpicHits where
  "engine_7x = OpicHits_init graph_7x hitsdb_create None relevance_3_4"

text \<open>
  Two pages and one link, from \<open>a\<close> to \<open>b\<close>, and a relevance database that stores 0.0 for
  every page. A new engine over them.
\<close>

definition graph_link :: graphdb where
  "graph_link =
     \<lparr>inodes = [''a'', ''b''],
      successors = (\<lambda>p. if p = ''a'' then [''b''] else []),
      predecessors = (\<lambda>p. if p = ''b'' then [''a''] else [])\<rparr>"

definition relevance_0 :: "string \<Rightarrow> real option" where
  "relevance_0 p = Some 0"

definition engine_link :: OpicHits where
  "engine_link = OpicHits_init graph_link hitsdb_create None relevance_0"

section \<open>Properties of the scheduler's table\<close>

lemma get_min_score_Nil: "get_min_score [] = 0"
  by (simp add: get_min_score_def limit_def order_by_asc_def)

lemma hd_sort_key_Min:
  fixes c :: "'r \<Rightarrow> real"
  assumes "rows \<noteq> []"
  shows "c (hd (sort_key c rows)) = Min (c ` set rows)"
proof -
  let ?ys = "sort_key c rows"
  have ne: "?ys \<noteq> []" using assms by (metis length_sort length_0_conv)
  have srt: "sorted (map c ?ys)" by (rule sorted_sort_key)
  have "c (hd ?ys) \<in> c ` set rows"
    using ne by (metis hd_in_set imageI set_sort)
  moreover have "\<forall>y \<in> c ` set rows. c (hd ?ys) \<le> y"
  proof
    fix y assume "y \<in> c ` set rows"
    then obtain r where r: "r \<in> set ?ys" "y = c r" by auto
    obtain z zs where zs: "?ys = z # zs" using ne by (cases ?ys) auto
    show "c (hd ?ys) \<le> y" using srt r zs by auto
  qed
  ultimately show ?thesis
    by (intro Min_eqI [symmetric]) auto
qed

lemma get_min_score_Min:
  assumes "db \<noteq> []"
  shows "get_min_score db = Min (score ` set db)"
proof -
  have ne: "sort_key score db \<noteq> []" using assms by (metis length_sort length_0_conv)
  then obtain z zs where zs: "sort_key score db = z # zs" by (cases "sort_key score db") auto
  have "get_min_score db = score (hd (sort_key score db))"
    by (simp add: get_min_score_def limit_def order_by_asc_def zs)
  then show ?thesis by (simp add: hd_sort_key_Min [OF assms])
qed

text \<open>
  C5. Admission: \<^verbatim>\<open>add(p, 0)\<close> leaves the table as it is; \<^verbatim>\<open>add(p, f)\<close> with \<open>f > 0\<close> and
  \<open>p\<close> not in the table appends the row \<open>(p, f, s)\<close> where \<open>s\<close> is the least score of the
  table (0 when it is empty), plus \<open>1/f\<close> when the page is fresh.
\<close>

theorem freqdb_add_admission:
  "freqdb_add db p 0 fresh = db \<and>
   (0 < f \<and> \<not> freqdb_contains db p \<longrightarrow>
      freqdb_add db p f fresh =
        db @ [\<lparr>page_id = p, frequency = f,
               score = (if db = [] then 0 else Min (score ` set db))
                       + (if fresh then 1 / f else 0)\<rparr>])"
proof (cases "db = []")
  case True
  then show ?thesis
    by (simp add: freqdb_add_def insert_or_ignore_def get_min_score_Nil freqdb_contains_def)
next
  case False
  then show ?thesis
    by (simp add: freqdb_add_def insert_or_ignore_def get_min_score_Min Let_def)
qed

theorem freqdb_add_admission_witness:
  "freqdb_add [\<lparr>page_id = ''a'', frequency = 1, score = 3\<rparr>] ''b'' 0 True
     = [\<lparr>page_id = ''a'', frequency = 1, score = 3\<rparr>] \<and>
   (0 < (4::real) \<and> \<not> freqdb_contains [\<lparr>page_id = ''a'', frequency = 1, score = 3\<rparr>] ''b'') \<and>
   freqdb_add [\<lparr>page_id = ''a'', frequency = 1, score = 3\<rparr>] ''b'' 4 True
     = [\<lparr>page_id = ''a'', frequency = 1, score = 3\<rparr>,
        \<lparr>page_id = ''b'', frequency = 4, score = 13 / 4\<rparr>]"
  using freqdb_add_admission [of "[\<lparr>page_id = ''a'', frequency = 1, score = 3\<rparr>]" "''b''" True 4]
  by (simp add: freqdb_contains_def)

text \<open>
  C10. \<^verbatim>\<open>set(p, f)\<close> with \<open>f > 0\<close> for a page that is not in the table takes the \<^verbatim>\<open>add\<close>
  branch: the row \<open>(p, f, s)\<close> is appended with \<open>s\<close> the least score of the table (0 when
  it is empty) plus \<open>1/f\<close>, and no existing row is touched.
\<close>

theorem freqdb_set_absent_adds_fresh:
  assumes "0 < f" and "\<not> freqdb_contains db p"
  shows "freqdb_set db p f =
           db @ [\<lparr>page_id = p, frequency = f,
                  score = (if db = [] then 0 else Min (score ` set db)) + 1 / f\<rparr>]"
proof (cases "db = []")
  case True
  with assms show ?thesis
    by (simp add: freqdb_set_def freqdb_add_def insert_or_ignore_def get_min_score_Nil
        freqdb_contains_def)
next
  case False
  with assms show ?thesis
    by (simp add: freqdb_set_def freqdb_add_def insert_or_ignore_def get_min_score_Min Let_def)
qed

theorem freqdb_set_absent_adds_fresh_witness:
  "(0 < (2::real) \<and> \<not> freqdb_contains [\<lparr>page_id = ''a'', frequency = 1, score = 3\<rparr>] ''b'') \<and>
   freqdb_set [\<lparr>page_id = ''a'', frequency = 1, score = 3\<rparr>] ''b'' 2
     = [\<lparr>page_id = ''a'', frequency = 1, score = 3\<rparr>,
        \<lparr>page_id = ''b'', frequency = 2, score = 7 / 2\<rparr>]"
proof -
  have h: "\<not> freqdb_contains [\<lparr>page_id = ''a'', frequency = 1, score = 3\<rparr>] ''b''"
    by (simp add: freqdb_contains_def)
  show ?thesis
    using freqdb_set_absent_adds_fresh [of 2 "[\<lparr>page_id = ''a'', frequency = 1, score = 3\<rparr>]" "''b''"] h
    by simp
qed




lemma insort_key_sorted_wrt:
  fixes f :: "'r \<Rightarrow> real"
  assumes "sorted (map f ys)" and "sorted_wrt R ys"
    and "\<forall>y\<in>set ys. f x \<le> f y \<longrightarrow> R x y"
    and "\<forall>y\<in>set ys. f y < f x \<longrightarrow> R y x"
  shows "sorted_wrt R (insort_key f x ys)"
  using assms
proof (induction ys)
  case Nil
  then show ?case by simp
next
  case (Cons y ys)
  show ?case
  proof (cases "f x \<le> f y")
    case True
    have "\<forall>z\<in>set (y # ys). f x \<le> f z" using Cons.prems(1) True by auto
    then have "\<forall>z\<in>set (y # ys). R x z" using Cons.prems(3) by blast
    then show ?thesis using True Cons.prems(2) by simp
  next
    case False
    then have lt: "f y < f x" by simp
    have ih: "sorted_wrt R (insort_key f x ys)"
      using Cons.IH Cons.prems by simp
    have "\<forall>z\<in>set (insort_key f x ys). R y z"
      using Cons.prems(2,4) lt by (auto simp: set_insort_key)
    then show ?thesis using False ih by simp
  qed
qed


lemma sort_key_stable_before:
  fixes f :: "'r \<Rightarrow> real"
  shows "sorted_wrt (stable_before f xs) (sort_key f xs)"
proof (induction xs)
  case Nil
  then show ?case by simp
next
  case (Cons x xs)
  let ?ys = "sort_key f xs"
  have mono: "stable_before f xs a b \<Longrightarrow> stable_before f (x # xs) a b" for a b
    unfolding stable_before_def by (metis append_Cons)
  have 1: "sorted_wrt (stable_before f (x # xs)) ?ys"
    using Cons.IH mono by (rule sorted_wrt_mono_rel [rotated]) 
  have 2: "\<forall>y\<in>set ?ys. f x \<le> f y \<longrightarrow> stable_before f (x # xs) x y"
  proof (intro ballI impI)
    fix y assume y: "y \<in> set ?ys" and le: "f x \<le> f y"
    from y have "y \<in> set xs" by simp
    then obtain vs ws where "xs = vs @ y # ws" by (meson split_list)
    then have "x # xs = [] @ x # vs @ y # ws" by simp
    then show "stable_before f (x # xs) x y"
      using le unfolding stable_before_def by (metis order_le_less)
  qed
  have 3: "\<forall>y\<in>set ?ys. f y < f x \<longrightarrow> stable_before f (x # xs) y x"
    by (simp add: stable_before_def)
  show ?case
    using insort_key_sorted_wrt [OF sorted_sort_key 1 2 3] by simp
qed

lemma before_index:
  assumes "distinct xs" and "xs = us @ a # vs @ b # ws"
    and "i < length xs" and "j < length xs" and "xs ! i = a" and "xs ! j = b"
  shows "i < j"
proof -
  have a: "xs ! length us = a" using assms(2) by simp
  have b: "xs ! (length us + 1 + length vs) = b"
    using assms(2) by (simp add: nth_append)
  have la: "length us < length xs" and lb: "length us + 1 + length vs < length xs"
    using assms(2) by simp_all
  have "i = length us" using assms(1,3,5) a la nth_eq_iff_index_eq by metis
  moreover have "j = length us + 1 + length vs"
    using assms(1,4,6) b lb nth_eq_iff_index_eq by metis
  ultimately show ?thesis by simp
qed

lemma take_drop_stable:
  fixes f :: "'r \<Rightarrow> real"
  assumes "distinct xs" and "a \<in> set (take k (sort_key f xs))"
    and "b \<in> set (drop k (sort_key f xs))"
    and "i < length xs" and "j < length xs" and "xs ! i = a" and "xs ! j = b"
  shows "f a < f b \<or> (f a = f b \<and> i < j)"
proof -
  let ?ys = "sort_key f xs"
  have "sorted_wrt (stable_before f xs) (take k ?ys @ drop k ?ys)"
    using sort_key_stable_before [of f xs] by simp
  then have "stable_before f xs a b"
    using assms(2,3) unfolding sorted_wrt_append by blast
  then show ?thesis
    unfolding stable_before_def using before_index [OF assms(1) _ assms(4,5,6,7)] by blast
qed


lemma freqdb_wf_distinct: "freqdb_wf db \<Longrightarrow> distinct db"
  by (auto simp: freqdb_wf_def distinct_map)

lemma freqdb_wf_page_id_inj:
  "freqdb_wf db \<Longrightarrow> r \<in> set db \<Longrightarrow> r' \<in> set db \<Longrightarrow> page_id r = page_id r' \<Longrightarrow> r = r'"
  by (auto simp: freqdb_wf_def distinct_map dest: inj_onD)

text \<open>Every operation of the interface keeps the table well formed.\<close>

lemma freqdb_contains_iff: "freqdb_contains db p \<longleftrightarrow> p \<in> page_id ` set db"
  by (auto simp: freqdb_contains_def filter_empty_conv)

lemma freqdb_wf_empty: "freqdb_wf []"
  by (simp add: freqdb_wf_def)

lemma freqdb_wf_add: "freqdb_wf db \<Longrightarrow> freqdb_wf (freqdb_add db p f fresh)"
  by (auto simp: freqdb_wf_def freqdb_add_def insert_or_ignore_def freqdb_contains_iff Let_def)

lemma freqdb_wf_delete: "freqdb_wf db \<Longrightarrow> freqdb_wf (freqdb_delete db p)"
  by (auto simp: freqdb_wf_def freqdb_delete_def distinct_map_filter list_all_iff)

lemma map_page_id_set:
  "map page_id (map (\<lambda>r. if page_id r = p then r\<lparr>frequency := f, score := g r\<rparr> else r) db)
     = map page_id db"
  by (induction db) auto

lemma map_page_id_next:
  "map page_id (map (\<lambda>r. if page_id r \<in> S then r\<lparr>score := g r\<rparr> else r) db)
     = map page_id db"
  by (induction db) auto

lemma freqdb_wf_set: "freqdb_wf db \<Longrightarrow> freqdb_wf (freqdb_set db p f)"
proof -
  assume wf: "freqdb_wf db"
  show ?thesis
  proof (cases "f = 0")
    case True
    then show ?thesis using wf by (simp add: freqdb_set_def freqdb_wf_delete)
  next
    case False
    show ?thesis
    proof (cases "freqdb_contains db p")
      case True
      have "list_all (\<lambda>r. frequency r \<noteq> 0)
              (map (\<lambda>r. if page_id r = p
                         then r\<lparr>frequency := f, score := score r - 1 / frequency r + 1 / f\<rparr>
                         else r) db)"
        using wf False by (auto simp: freqdb_wf_def list_all_iff)
      then show ?thesis
        using wf False True
        by (simp add: freqdb_set_def freqdb_wf_def map_page_id_set del: map_map)
    next
      case c: False
      then show ?thesis using wf False by (simp add: freqdb_set_def freqdb_wf_add)
    qed
  qed
qed

text \<open>The statement text of ids without a quote and without NUL is the list of these ids.\<close>

lemma literals_Body_plain:
  "apostrophe \<notin> set p \<Longrightarrow>
     literals lits (Body s) (p @ rest) = literals lits (Body (s @ p)) rest"
  by (induction p arbitrary: s) auto

lemma literals_quoted:
  assumes "apostrophe \<notin> set p"
  shows "literals lits Opening ([apostrophe] @ p @ [apostrophe] @ rest)
           = literals lits (Closing p) rest"
  using literals_Body_plain [OF assms, of lits "[]" "apostrophe # rest"] by simp

lemma comma_not_apostrophe: "CHR '','' \<noteq> apostrophe"
  by (simp add: apostrophe_def)

lemma literals_in_list_text:
  assumes "\<forall>p\<in>set pages. apostrophe \<notin> set p" and "pages \<noteq> []"
  shows "literals lits Opening (in_list_text pages) = Some (lits @ pages)"
  using assms
proof (induction pages arbitrary: lits rule: induct_list012)
  case 1
  then show ?case by simp
next
  case (2 p)
  then show ?case
    using literals_quoted [of p lits "[]"] by (simp add: in_list_text_def)
next
  case (3 p q qs)
  have p: "apostrophe \<notin> set p" using 3 by simp
  have rest: "literals (lits @ [p]) Opening (in_list_text (q # qs)) = Some ((lits @ [p]) @ q # qs)"
    using 3 by simp
  have "in_list_text (p # q # qs)
          = [apostrophe] @ p @ [apostrophe] @ (CHR '','' # in_list_text (q # qs))"
    by (simp add: in_list_text_def)
  then show ?case
    using literals_quoted [OF p, of lits "CHR '','' # in_list_text (q # qs)"] rest
      comma_not_apostrophe
    by simp
qed

lemma set_in_list_text:
  "set (in_list_text pages) \<subseteq> {apostrophe, CHR '',''} \<union> (\<Union>p\<in>set pages. set p)"
  by (induction pages rule: induct_list012) (auto simp: in_list_text_def)

lemma in_list_text_Nil: "in_list_text pages = [] \<longleftrightarrow> pages = []"
  by (induction pages rule: induct_list012) (simp_all add: in_list_text_def)

lemma read_in_list_plain:
  assumes "\<forall>p\<in>set pages. plain_id p"
  shows "read_in_list (in_list_text pages) = In_list pages"
proof (cases "pages = []")
  case True
  then show ?thesis by (simp add: read_in_list_def in_list_text_def)
next
  case False
  have "CHR 0x00 \<notin> set (in_list_text pages)"
    using assms set_in_list_text [of pages] by (auto simp: plain_id_def apostrophe_def)
  moreover have "literals [] Opening (in_list_text pages) = Some pages"
    using literals_in_list_text [of pages "[]"] assms False by (simp add: plain_id_def)
  ultimately show ?thesis
    using False by (simp add: read_in_list_def in_list_text_Nil)
qed

text \<open>\<^verbatim>\<open>LIMIT n\<close> as a number of rows: every row when \<open>n\<close> is negative.\<close>

lemma limit_take:
  "limit n (sort_key c rows) = take (if n < 0 then length rows else nat n) (sort_key c rows)"
  by (simp add: limit_def)

lemma get_next_pages_plain:
  assumes "list_all (\<lambda>r. plain_id (page_id r)) db"
  shows "get_next_pages db n =
           Inr (map page_id (limit n (order_by_asc score db)),
                map (\<lambda>r. if page_id r \<in> set (map page_id (limit n (order_by_asc score db)))
                          then r\<lparr>score := score r + 1 / frequency r\<rparr>
                          else r) db)"
proof -
  have "set (limit n (order_by_asc score db)) \<subseteq> set db"
    by (auto simp: limit_def order_by_asc_def dest: in_set_takeD)
  then have "\<forall>p\<in>set (map page_id (limit n (order_by_asc score db))). plain_id p"
    using assms by (auto simp: list_all_iff)
  then show ?thesis
    by (simp add: get_next_pages_def Let_def read_in_list_plain del: set_map)
qed

lemma freqdb_wf_get_next_pages:
  assumes "freqdb_wf db" and "get_next_pages db n = Inr (pages, db')"
  shows "freqdb_wf db'"
proof -
  have keep: "list_all (\<lambda>r. frequency r \<noteq> 0)
          (map (\<lambda>r. if page_id r \<in> S then r\<lparr>score := score r + 1 / frequency r\<rparr> else r) db)"
    for S
    using assms(1) by (auto simp: freqdb_wf_def list_all_iff)
  obtain ids where
    "db' = map (\<lambda>r. if page_id r \<in> set ids
                     then r\<lparr>score := score r + 1 / frequency r\<rparr> else r) db"
    using assms(2) by (auto simp: get_next_pages_def Let_def split: in_list.splits)
  then show ?thesis
    using assms(1) keep [of "set ids"]
    by (simp add: freqdb_wf_def map_page_id_next del: map_map)
qed

text \<open>
  C6. Selection, for a table whose ids have no quote and no NUL character and for every
  \<open>n\<close>: \<^verbatim>\<open>get_next_pages(n)\<close> returns; it returns \<open>min n |db|\<close> distinct ids of the table, and
  the ids of all rows when \<open>n\<close> is negative; a selected row comes before every row that
  is not selected in the order by score and then by position in the table (the rowid);
  every selected row has its score increased by \<open>1/frequency\<close> and the other rows are as
  they were.
\<close>

theorem get_next_pages_selection:
  assumes "freqdb_wf db" and "list_all (\<lambda>r. plain_id (page_id r)) db"
  shows "\<exists>pages db'.
           get_next_pages db n = Inr (pages, db') \<and>
           length pages = (if n < 0 then length db else min (nat n) (length db)) \<and>
           distinct pages \<and> set pages \<subseteq> page_id ` set db \<and>
           (\<forall>i<length db. \<forall>j<length db.
              page_id (db ! i) \<in> set pages \<and> page_id (db ! j) \<notin> set pages \<longrightarrow>
              score (db ! i) < score (db ! j) \<or> (score (db ! i) = score (db ! j) \<and> i < j)) \<and>
           length db' = length db \<and>
           (\<forall>i<length db.
              db' ! i = (if page_id (db ! i) \<in> set pages
                         then (db ! i)\<lparr>score := score (db ! i) + 1 / frequency (db ! i)\<rparr>
                         else db ! i))"
proof -
  let ?ys = "sort_key score db"
  let ?k = "if n < 0 then length db else nat n"
  define pages where "pages = map page_id (take ?k ?ys)"
  define db' where "db' = map (\<lambda>r. if page_id r \<in> set pages
                          then r\<lparr>score := score r + 1 / frequency r\<rparr> else r) db"
  have run: "get_next_pages db n = Inr (pages, db')"
    unfolding pages_def db'_def
    using get_next_pages_plain [OF assms(2), of n] limit_take [of n score db]
    by (simp add: order_by_asc_def)
  have dist: "distinct db" using assms(1) by (rule freqdb_wf_distinct)
  have sel: "page_id r \<in> set pages \<longleftrightarrow> r \<in> set (take ?k ?ys)" if "r \<in> set db" for r
  proof
    assume "page_id r \<in> set pages"
    then obtain r' where r': "r' \<in> set (take ?k ?ys)" "page_id r' = page_id r"
      unfolding pages_def by auto
    then have "r' \<in> set db" by (metis in_set_takeD set_sort)
    then have "r' = r" using freqdb_wf_page_id_inj [OF assms(1) _ that] r'(2) by blast
    then show "r \<in> set (take ?k ?ys)" using r'(1) by simp
  next
    assume "r \<in> set (take ?k ?ys)"
    then show "page_id r \<in> set pages" unfolding pages_def by simp
  qed
  have 1: "length pages = (if n < 0 then length db else min (nat n) (length db))"
    unfolding pages_def by (simp add: min.commute)
  have "distinct (map page_id ?ys)"
    using assms(1) by (simp add: freqdb_wf_def distinct_map)
  then have 2: "distinct pages"
    unfolding pages_def by (metis distinct_take take_map)
  have 3: "set pages \<subseteq> page_id ` set db"
    unfolding pages_def using set_take_subset [of ?k ?ys] by auto
  have 4: "score (db ! i) < score (db ! j) \<or> (score (db ! i) = score (db ! j) \<and> i < j)"
    if "i < length db" "j < length db"
      "page_id (db ! i) \<in> set pages" "page_id (db ! j) \<notin> set pages" for i j
  proof -
    have a: "db ! i \<in> set (take ?k ?ys)" using that(1,3) sel by simp
    have "db ! j \<in> set ?ys" using that(2) by simp
    then have "db ! j \<in> set (take ?k ?ys) \<union> set (drop ?k ?ys)"
      by (metis append_take_drop_id set_append)
    then have b: "db ! j \<in> set (drop ?k ?ys)" using that(2,4) sel by auto
    show ?thesis
      using take_drop_stable [OF dist a b that(1,2)] by simp
  qed
  have 5: "length db' = length db" unfolding db'_def by simp
  have 6: "\<forall>i<length db.
            db' ! i = (if page_id (db ! i) \<in> set pages
                       then (db ! i)\<lparr>score := score (db ! i) + 1 / frequency (db ! i)\<rparr>
                       else db ! i)"
    unfolding db'_def by simp
  show ?thesis using run 1 2 3 4 5 6 by blast
qed

theorem get_next_pages_selection_witness:
  "freqdb_wf [\<lparr>page_id = ''a'', frequency = 1, score = 2\<rparr>,
              \<lparr>page_id = ''b'', frequency = 2, score = 1\<rparr>,
              \<lparr>page_id = ''c'', frequency = 4, score = 1\<rparr>] \<and>
   list_all (\<lambda>r. plain_id (page_id r))
             [\<lparr>page_id = ''a'', frequency = 1, score = 2\<rparr>,
              \<lparr>page_id = ''b'', frequency = 2, score = 1\<rparr>,
              \<lparr>page_id = ''c'', frequency = 4, score = 1\<rparr>] \<and>
   get_next_pages [\<lparr>page_id = ''a'', frequency = 1, score = 2\<rparr>,
                   \<lparr>page_id = ''b'', frequency = 2, score = 1\<rparr>,
                   \<lparr>page_id = ''c'', frequency = 4, score = 1\<rparr>] 1
     = Inr ([''b''], [\<lparr>page_id = ''a'', frequency = 1, score = 2\<rparr>,
                      \<lparr>page_id = ''b'', frequency = 2, score = 3 / 2\<rparr>,
                      \<lparr>page_id = ''c'', frequency = 4, score = 1\<rparr>]) \<and>
   length [''b''] = min (nat 1) (length [\<lparr>page_id = ''a'', frequency = 1, score = 2\<rparr>,
              \<lparr>page_id = ''b'', frequency = 2, score = 1\<rparr>,
              \<lparr>page_id = ''c'', frequency = 4, score = (1::real)\<rparr>])"
proof -
  let ?db = "[\<lparr>page_id = ''a'', frequency = 1, score = 2\<rparr>,
              \<lparr>page_id = ''b'', frequency = 2, score = 1\<rparr>,
              \<lparr>page_id = ''c'', frequency = 4, score = 1\<rparr>]"
  let ?db' = "[\<lparr>page_id = ''a'', frequency = 1, score = 2\<rparr>,
               \<lparr>page_id = ''b'', frequency = 2, score = 3 / 2\<rparr>,
               \<lparr>page_id = ''c'', frequency = 4, score = 1\<rparr>]"
  have wf: "freqdb_wf ?db" by (simp add: freqdb_wf_def)
  have plain: "list_all (\<lambda>r. plain_id (page_id r)) ?db"
    by (simp add: plain_id_def apostrophe_def)
  have run: "get_next_pages ?db 1 = Inr ([''b''], ?db')"
    by (simp add: get_next_pages_def limit_def order_by_asc_def in_list_text_def
        read_in_list_def apostrophe_def)
  from get_next_pages_selection [OF wf plain, of 1] obtain pages db' where
    r: "get_next_pages ?db 1 = Inr (pages, db')" and
    l: "length pages = (if (1::int) < 0 then length ?db else min (nat 1) (length ?db))"
    by blast
  from r run have "pages = [''b'']" by simp
  with l have "length [''b''] = min (nat 1) (length ?db)" by simp
  with wf plain run show ?thesis by blast
qed

text \<open>
  The claim as it is written, for every table and every \<open>n\<close>, fails in two ways. With one
  row whose id is \<^verbatim>\<open>it's\<close>, the text of the \<^verbatim>\<open>UPDATE\<close> is \<^verbatim>\<open>... IN ('it's')\<close>, which SQLite
  refuses: \<^verbatim>\<open>get_next_pages(1)\<close> raises and returns no row. With three rows and \<open>n = -1\<close>
  the call returns all three ids and increments all three rows.
\<close>

theorem get_next_pages_selection_counterexample:
  "get_next_pages [\<lparr>page_id = ''it's'', frequency = 1, score = 0\<rparr>] 1 = Inl OperationalError \<and>
   get_next_pages [\<lparr>page_id = ''a'', frequency = 1, score = 2\<rparr>,
                   \<lparr>page_id = ''b'', frequency = 2, score = 1\<rparr>,
                   \<lparr>page_id = ''c'', frequency = 4, score = 1\<rparr>] (- 1)
     = Inr ([''b'', ''c'', ''a''],
            [\<lparr>page_id = ''a'', frequency = 1, score = 3\<rparr>,
             \<lparr>page_id = ''b'', frequency = 2, score = 3 / 2\<rparr>,
             \<lparr>page_id = ''c'', frequency = 4, score = 5 / 4\<rparr>])"
  by (simp add: get_next_pages_def limit_def order_by_asc_def in_list_text_def
      read_in_list_def apostrophe_def outside_char_def)

text \<open>
  An id with quotes can also make a statement that SQLite runs. With the rows \<^verbatim>\<open>a','b\<close>
  (score 0) and \<^verbatim>\<open>a\<close> (score 5), \<^verbatim>\<open>get_next_pages(1)\<close> selects the first row, the text is
  \<^verbatim>\<open>... IN ('a','b')\<close>, and the row that is incremented is the second.
\<close>

lemma get_next_pages_other_row:
  "get_next_pages [\<lparr>page_id = ''a','b'', frequency = 1, score = 0\<rparr>,
                   \<lparr>page_id = ''a'', frequency = 1, score = 5\<rparr>] 1
     = Inr ([''a','b''],
            [\<lparr>page_id = ''a','b'', frequency = 1, score = 0\<rparr>,
             \<lparr>page_id = ''a'', frequency = 1, score = 6\<rparr>])"
  by (simp add: get_next_pages_def limit_def order_by_asc_def in_list_text_def
      read_in_list_def apostrophe_def)

section \<open>The share of a predecessor\<close>

lemma z_share_half: "0 < N \<Longrightarrow> z_share (1 / 2) N = 1 / (real N + 1)"
proof -
  assume "0 < N"
  then have "z_share (1 / 2) N = 2 / (real N * 2 + 2)"
    by (simp add: z_share_def)
  also have "real N * 2 + 2 = 2 * (real N + 1)" by simp
  also have "2 / (2 * (real N + 1)) = (2 * 1) / (2 * (real N + 1))" by simp
  also have "\<dots> = 1 / (real N + 1)"
    by (rule mult_divide_mult_cancel_left) simp
  finally show ?thesis .
qed

text \<open>
  The polynomial itself passes through its three anchor points: with \<open>N > 0\<close> it is 0 at
  relevance 0, \<open>1/N\<close> at relevance 1 and \<open>1/(N+1)\<close> at relevance 0.5; with \<open>N = 0\<close> it is 0
  at every relevance.
\<close>

lemma z_share_anchors:
  "(0 < N \<longrightarrow> z_share 0 N = 0 \<and> z_share 1 N = 1 / real N \<and>
                z_share (1 / 2) N = 1 / (real N + 1)) \<and>
   z_share r 0 = 0"
proof -
  have "z_share 1 N = 1 / real N" if "0 < N"
    using that by (simp add: z_share_def)
  then show ?thesis using z_share_half [of N] by (simp add: z_share_def)
qed

text \<open>Where the shares are not negative.\<close>

lemma z_share_nonneg:
  assumes "0 \<le> r" and "r \<le> 1"
  shows "0 \<le> z_share r N"
proof (cases "0 < N")
  case False
  then show ?thesis by (simp add: z_share_def)
next
  case True
  then have n: "1 \<le> real N" by simp
  have "1 \<le> 2 * real N / (real N + 1)" using n by (simp add: field_simps)
  then have "1 * (1 - r) \<le> 2 * real N / (real N + 1) * (1 - r)"
    using assms(2) by (intro mult_right_mono) simp_all
  then have a: "0 \<le> 2 * real N / (real N + 1) * (1 - r) + (r - 0.5)" by simp
  have b: "0 \<le> 2 * r / real N" using assms(1) by simp
  have "0 \<le> 2 * r / real N * (2 * real N / (real N + 1) * (1 - r) + (r - 0.5))"
    using a b by (rule mult_nonneg_nonneg [rotated]) 
  then show ?thesis using True by (simp only: z_share_def if_True)
qed

lemma z_share_half_virtual: "0 \<le> 1 - z_share (1 / 2) N * real N"
proof (cases "0 < N")
  case False
  then show ?thesis by (simp add: z_share_def)
next
  case True
  have "z_share (1 / 2) N * real N = real N / (real N + 1)"
    using True by (simp add: z_share_half)
  also have "\<dots> \<le> 1" by simp
  finally show ?thesis by simp
qed

section \<open>The cash-delta table against the reference table\<close>

lemma map_of_map_snd:
  "map_of (map (\<lambda>(q, s). (q, f s)) xs) p = map_option f (map_of xs p)"
  by (induction xs) auto

lemma hitsdb_get_as_read: "hitsdb_get db p = naive_get (as_read db) p"
  by (simp add: hitsdb_get_def naive_get_def as_read_def map_of_map_snd split: option.splits)

lemma hitsdb_contains_as_read: "hitsdb_contains db p \<longleftrightarrow> map_of (as_read db) p \<noteq> None"
  by (simp add: hitsdb_contains_def as_read_def map_of_map_snd)

lemma as_read_add: "as_read (hitsdb_add db p s) = naive_add (as_read db) p s"
proof (cases "hitsdb_contains db p")
  case True
  then show ?thesis
    using hitsdb_contains_as_read [of db p] by (simp add: hitsdb_add_def naive_add_def)
next
  case False
  then have "map_of (as_read db) p = None"
    using hitsdb_contains_as_read [of db p] by simp
  then show ?thesis
    using False by (simp add: hitsdb_add_def naive_add_def) (simp add: as_read_def stored_def)
qed

lemma as_read_set: "as_read (hitsdb_set db p s) = naive_set (as_read db) p s"
  by (auto simp: hitsdb_set_def naive_set_def as_read_def stored_def)

lemma as_read_increase_h_cash:
  "as_read (increase_h_cash db ids c) = naive_increase_h_cash (as_read db) ids c"
  by (auto simp: increase_h_cash_def naive_increase_h_cash_def as_read_def)

lemma as_read_increase_a_cash:
  "as_read (increase_a_cash db ids c) = naive_increase_a_cash (as_read db) ids c"
  by (auto simp: increase_a_cash_def naive_increase_a_cash_def as_read_def)

lemma as_read_increase_all_cash:
  "as_read (increase_all_cash db h a) = naive_increase_all_cash (as_read db) h a"
  by (auto simp: increase_all_cash_def naive_increase_all_cash_def as_read_def algebra_simps)

lemma as_read_call: "as_read (hitsdb_call db c) = naive_call (as_read db) c"
  by (cases c)
     (simp_all add: as_read_add as_read_set as_read_increase_h_cash as_read_increase_a_cash
        as_read_increase_all_cash)

lemma as_read_foldl:
  "as_read (foldl hitsdb_call db cs) = foldl naive_call (as_read db) cs"
  by (induction cs arbitrary: db) (simp_all add: as_read_call)

lemma as_read_calls: "as_read (hitsdb_calls cs) = naive_calls cs"
  by (simp add: hitsdb_calls_def naive_calls_def as_read_foldl)
     (simp add: as_read_def hitsdb_create_def)

text \<open>
  \<^verbatim>\<open>get\<close> agrees with the reference table after every sequence of calls.
\<close>

lemma hitsdb_get_equivalence:
  "hitsdb_get (hitsdb_calls cs) p = naive_get (naive_calls cs) p"
  by (simp add: hitsdb_get_as_read as_read_calls)

lemma insort_key_map_mono:
  fixes f :: "'r \<Rightarrow> real"
  assumes "\<And>a b. f (g a) \<le> f (g b) \<longleftrightarrow> f a \<le> f b"
  shows "insort_key f (g x) (map g ys) = map g (insort_key f x ys)"
  by (induction ys) (simp_all add: assms)

lemma sort_key_map_mono:
  fixes f :: "'r \<Rightarrow> real"
  assumes "\<And>a b. f (g a) \<le> f (g b) \<longleftrightarrow> f a \<le> f b"
  shows "sort_key f (map g xs) = map g (sort_key f xs)"
  by (induction xs) (simp_all add: insort_key_map_mono [of f g, OF assms])

lemma limit_map: "limit n (map g xs) = map g (limit n xs)"
  by (simp add: limit_def take_map)

lemma order_by_desc_map_mono:
  fixes f :: "'r \<Rightarrow> real"
  assumes "\<And>a b. f (g a) \<le> f (g b) \<longleftrightarrow> f a \<le> f b"
  shows "order_by_desc f (map g xs) = map g (order_by_desc f xs)"
  by (simp add: order_by_desc_def sort_key_map_mono [of f g, OF assms] rev_map)

lemma get_highest_h_cash_as_read:
  "get_highest_h_cash db n = naive_get_highest_h_cash (as_read db) n"
proof -
  let ?g = "\<lambda>(q, s). (q, s\<lparr>h_cash := h_cash s + h_cash_increase db,
                              a_cash := a_cash s + a_cash_increase db\<rparr>)"
  have "order_by_desc (\<lambda>(q, s). h_cash s) (map ?g (page_score db))
          = map ?g (order_by_desc (\<lambda>(q, s). h_cash s) (page_score db))"
    by (rule order_by_desc_map_mono) auto
  then show ?thesis
    by (simp add: get_highest_h_cash_def naive_get_highest_h_cash_def as_read_def limit_map
        case_prod_unfold comp_def)
qed

lemma get_highest_a_cash_as_read:
  "get_highest_a_cash db n = naive_get_highest_a_cash (as_read db) n"
proof -
  let ?g = "\<lambda>(q, s). (q, s\<lparr>h_cash := h_cash s + h_cash_increase db,
                              a_cash := a_cash s + a_cash_increase db\<rparr>)"
  have "order_by_desc (\<lambda>(q, s). a_cash s) (map ?g (page_score db))
          = map ?g (order_by_desc (\<lambda>(q, s). a_cash s) (page_score db))"
    by (rule order_by_desc_map_mono) auto
  then show ?thesis
    by (simp add: get_highest_a_cash_def naive_get_highest_a_cash_def as_read_def limit_map
        case_prod_unfold comp_def)
qed

lemma get_highest_equivalence:
  "get_highest_h_cash (hitsdb_calls cs) n = naive_get_highest_h_cash (naive_calls cs) n \<and>
   get_highest_a_cash (hitsdb_calls cs) n = naive_get_highest_a_cash (naive_calls cs) n"
  by (simp add: get_highest_h_cash_as_read get_highest_a_cash_as_read as_read_calls)

text \<open>
  C2. The cash-delta equivalence holds for \<^verbatim>\<open>get\<close>, \<^verbatim>\<open>get_highest_h_cash\<close> and
  \<^verbatim>\<open>get_highest_a_cash\<close>, and fails for \<^verbatim>\<open>iteritems\<close>: after \<^verbatim>\<open>add('a', (0, 1, 0, 0, 1, 0))\<close>
  and \<^verbatim>\<open>increase_all_cash(1, 2)\<close> the reference table and \<^verbatim>\<open>get\<close> read the authority cash
  3 for \<open>a\<close>, and \<^verbatim>\<open>iteritems\<close> yields 2, the hub increase added to the authority cash.
\<close>

theorem iteritems_adds_hub_increase_to_a_cash:
  "hitsdb_iteritems
     (hitsdb_calls [Call_add ''a'' \<lparr>h_history = 0, h_cash = 1, h_last = 0,
                                    a_history = 0, a_cash = 1, a_last = 0\<rparr>,
                    Call_increase_all_cash 1 2])
     = [(''a'', \<lparr>h_history = 0, h_cash = 2, h_last = 0,
                 a_history = 0, a_cash = 2, a_last = 0\<rparr>)] \<and>
   naive_iteritems
     (naive_calls [Call_add ''a'' \<lparr>h_history = 0, h_cash = 1, h_last = 0,
                                   a_history = 0, a_cash = 1, a_last = 0\<rparr>,
                   Call_increase_all_cash 1 2])
     = [(''a'', \<lparr>h_history = 0, h_cash = 2, h_last = 0,
                 a_history = 0, a_cash = 3, a_last = 0\<rparr>)] \<and>
   hitsdb_get
     (hitsdb_calls [Call_add ''a'' \<lparr>h_history = 0, h_cash = 1, h_last = 0,
                                    a_history = 0, a_cash = 1, a_last = 0\<rparr>,
                    Call_increase_all_cash 1 2]) ''a''
     = Some \<lparr>h_history = 0, h_cash = 2, h_last = 0,
             a_history = 0, a_cash = 3, a_last = 0\<rparr>"
  by (simp add: hitsdb_iteritems_def naive_iteritems_def hitsdb_calls_def naive_calls_def
      hitsdb_get_def hitsdb_create_def hitsdb_add_def hitsdb_contains_def stored_def
      increase_all_cash_def naive_add_def naive_increase_all_cash_def)

section \<open>The engine returns\<close>

subsection \<open>Looking a score up never fails\<close>

lemma hitsdb_get_contains:
  "hitsdb_contains db p \<Longrightarrow> \<exists>s. hitsdb_get db p = Some s"
  by (auto simp: hitsdb_contains_def hitsdb_get_def)

lemma get_page_score_present:
  assumes "hitsdb_contains (scores e) p"
  shows "get_page_score e p = (hitsdb_get (scores e) p, e)"
  using assms by (simp add: get_page_score_def add_page_def)

lemma get_page_score_absent:
  assumes "\<not> hitsdb_contains (scores e) p"
  shows "get_page_score e p =
           (Some \<lparr>h_history = 0, h_cash = 1, h_last = time e,
                  a_history = 0, a_cash = 1, a_last = time e\<rparr>,
            snd (add_page e p))"
  using assms by (simp add: get_page_score_def add_page_def Let_def)

lemma get_page_score_Some: "\<exists>sc e1. get_page_score e p = (Some sc, e1)"
proof (cases "hitsdb_contains (scores e) p")
  case True
  then show ?thesis
    using hitsdb_get_contains [OF True] by (auto simp: get_page_score_present)
next
  case False
  then show ?thesis by (simp add: get_page_score_absent)
qed

lemma update_page_h_returns: "\<exists>e'. update_page_h e p = Inr e'"
proof -
  obtain sc e1 where "get_page_score e p = (Some sc, e1)"
    using get_page_score_Some by blast
  then show ?thesis by (simp add: update_page_h_def Let_def)
qed

lemma update_page_a_returns: "\<exists>e'. update_page_a e p = Inr e'"
proof -
  obtain sc e1 where "get_page_score e p = (Some sc, e1)"
    using get_page_score_Some by blast
  then show ?thesis by (simp add: update_page_a_def Let_def)
qed

lemma update_pages_returns: "\<exists>e'. update_pages ms e = Inr e'"
proof (induction ms arbitrary: e)
  case Nil
  then show ?case by simp
next
  case (Cons m ms)
  obtain cash p is_hub where m: "m = (cash, p, is_hub)" by (cases m) auto
  obtain e1 where e1: "(if is_hub then update_page_h e p else update_page_a e p) = Inr e1"
    using update_page_h_returns [of e p] update_page_a_returns [of e p]
    by (cases is_hub) auto
  show ?case using Cons.IH [of e1] by (simp only: m update_pages.simps e1 sum.case)
qed

text \<open>One iteration of \<^verbatim>\<open>update\<close>, and the loop as iterations one after another.\<close>

lemma update_iterations_returns:
  "\<exists>e' m'. update_iterations i k e m = Inr (e', m')"
proof (induction i arbitrary: e m)
  case 0
  then show ?case by simp
next
  case (Suc i)
  obtain e1 where e1: "update_pages (mixed_batch e k) e = Inr e1"
    using update_pages_returns by blast
  show ?case
    using Suc.IH [of "update_virtual_page e1" "Some (mixed_batch e k)"]
    by (simp add: Let_def e1)
qed




subsection \<open>Evaluating the engine on concrete data\<close>

lemmas engine_eval =
  OpicHits_init_def add_pages_def add_page_def hitsdb_contains_def hitsdb_add_def stored_def
  hitsdb_create_def get_count_def get_h_total_def get_a_total_def
  update_def mixed_batch_def get_highest_h_cash_def get_highest_a_cash_def limit_def
  order_by_desc_def update_page_h_def update_page_a_def get_page_score_def hitsdb_get_def
  hitsdb_set_def increase_h_cash_def increase_a_cash_def increase_all_cash_def
  updated_page_h_def updated_page_a_def update_virtual_page_def z_share_def
  relevance_or_half_def hub_pages_def authority_pages_def mark_update_def engine_of_def
  isolated_pages_def no_relevance_def Let_def

subsection \<open>Marked pages\<close>

text \<open>
  C3. A new engine over eleven pages without links, \<^verbatim>\<open>mark_update('a')\<close>, then
  \<^verbatim>\<open>update(1)\<close>: the batch has room for 20 of the 22 entries, the two entries of \<open>a\<close> are
  the last in the order and are left out. The call returns the ten other pages in both
  lists, the row of \<open>a\<close> has no history and the clock 0 of its creation in both \<open>last\<close>
  fields, and the must-update list is empty.
\<close>

theorem marked_page_is_not_updated:
  "\<exists>e'. update (mark_update engine_11 ''a'') 1
           = Inr (e', [''k'', ''j'', ''i'', ''h'', ''g'', ''f'', ''e'', ''d'', ''c'', ''b''],
                      [''k'', ''j'', ''i'', ''h'', ''g'', ''f'', ''e'', ''d'', ''c'', ''b'']) \<and>
         hitsdb_get (scores e') ''a''
           = Some \<lparr>h_history = 0, h_cash = 2, h_last = 0,
                   a_history = 0, a_cash = 2, a_last = 0\<rparr> \<and>
         to_update e' = []"
  by (simp add: engine_11_def engine_eval eval_nat_numeral
      cong: let_weak_cong prod.case_cong_weak)

subsection \<open>The clock across a restart\<close>

lemma add_page_time: "time (snd (add_page e p)) = time e"
  by (simp add: add_page_def Let_def)

lemma add_pages_time: "time (add_pages e ps) = time e"
  unfolding add_pages_def by (induction ps arbitrary: e) (simp_all add: add_page_time)

text \<open>
  The clock is an attribute of the engine object, set to 0.0 by the constructor.
\<close>

lemma restart_time: "time (restart e) = 0"
  by (simp add: restart_def OpicHits_init_def add_pages_time)

text \<open>
  C4, as the code has it. The clock is an attribute of the engine object that no store
  holds: the engine that a restart constructs has the clock 0, whatever the clock was.
\<close>

theorem restart_resets_time: "time (restart e) = 0"
  by (rule restart_time)

text \<open>
  C4 as stated fails: a new engine over one page has the clock 2 after \<^verbatim>\<open>update(1)\<close>, and
  the engine constructed after closing it has the clock 0.
\<close>

theorem restart_loses_time_counterexample:
  "time (engine_of (update engine_1 1)) = 2 \<and>
   time (restart (engine_of (update engine_1 1))) = 0"
  by (simp add: restart_time)
     (simp add: engine_1_def engine_eval eval_nat_numeral
        cong: let_weak_cong prod.case_cong_weak)

text \<open>What a restart does keep: the two cash increases that \<^verbatim>\<open>close\<close> has saved.\<close>

lemma add_page_increases:
  "h_cash_increase (scores (snd (add_page e p))) = h_cash_increase (scores e) \<and>
   a_cash_increase (scores (snd (add_page e p))) = a_cash_increase (scores e)"
  by (simp add: add_page_def hitsdb_add_def Let_def)

lemma add_pages_increases:
  "h_cash_increase (scores (add_pages e ps)) = h_cash_increase (scores e) \<and>
   a_cash_increase (scores (add_pages e ps)) = a_cash_increase (scores e)"
  unfolding add_pages_def by (induction ps arbitrary: e) (simp_all add: add_page_increases)

lemma restart_keeps_increases:
  assumes "\<not> is_closed e"
  shows "h_cash_increase (scores (restart e)) = h_cash_increase (scores e) \<and>
         a_cash_increase (scores (restart e)) = a_cash_increase (scores e)"
  using assms
  by (simp add: restart_def OpicHits_init_def add_pages_increases close_def hitsdb_reopen_def
      hitsdb_close_def)

section \<open>Cash conservation\<close>

subsection \<open>Sums over the rows of the score table\<close>















lemma map_fst_increase:
  "map fst (map (\<lambda>(q, s). if q \<in> S then (q, g s) else (q, s)) rows) = map fst rows"
  by (induction rows) auto

lemma map_fst_set:
  "map fst (map (\<lambda>(q, old). if q = p then (q, t) else (q, old)) rows) = map fst rows"
  by (induction rows) auto

lemma hitsdb_unique_increase_a_cash:
  "hitsdb_unique (increase_a_cash db ns c) = hitsdb_unique db"
  by (simp add: hitsdb_unique_def increase_a_cash_def map_fst_increase del: map_map)

lemma hitsdb_unique_increase_h_cash:
  "hitsdb_unique (increase_h_cash db ns c) = hitsdb_unique db"
  by (simp add: hitsdb_unique_def increase_h_cash_def map_fst_increase del: map_map)

lemma hitsdb_unique_set: "hitsdb_unique (hitsdb_set db p s) = hitsdb_unique db"
  by (simp add: hitsdb_unique_def hitsdb_set_def map_fst_set del: map_map)

subsection \<open>The three update steps\<close>

lemma updated_page_h_cash:
  "h_cash (updated_page_h e sc) = 0 \<and> a_cash (updated_page_h e sc) = a_cash sc"
  by (simp add: updated_page_h_def Let_def)

lemma updated_page_a_cash:
  "a_cash (updated_page_a e sc) = 0 \<and> h_cash (updated_page_a e sc) = h_cash sc"
  by (simp add: updated_page_a_def Let_def)










subsection \<open>The counter of pages and the score rows\<close>

lemma get_count_increase_a_cash: "get_count (increase_a_cash db ns c) = get_count db"
  by (simp add: get_count_def increase_a_cash_def)

lemma get_count_increase_h_cash: "get_count (increase_h_cash db ns c) = get_count db"
  by (simp add: get_count_def increase_h_cash_def)

lemma get_count_set: "get_count (hitsdb_set db p s) = get_count db"
  by (simp add: get_count_def hitsdb_set_def)

lemma engine_inv_add_page: "engine_inv e \<Longrightarrow> engine_inv (snd (add_page e p))"
proof -
  assume inv: "engine_inv e"
  have "p \<notin> fst ` set (page_score (scores e))" if "\<not> hitsdb_contains (scores e) p"
    using that by (auto simp: hitsdb_contains_def map_of_eq_None_iff)
  then show ?thesis
    using inv
    by (auto simp: engine_inv_def add_page_def Let_def hitsdb_add_def hitsdb_unique_def
        get_count_def)
qed

lemma engine_inv_add_pages: "engine_inv e \<Longrightarrow> engine_inv (add_pages e ps)"
  unfolding add_pages_def by (induction ps arbitrary: e) (simp_all add: engine_inv_add_page)

lemma engine_inv_init:
  "hitsdb_unique db \<Longrightarrow> engine_inv (OpicHits_init g db tw rel)"
  unfolding OpicHits_init_def by (rule engine_inv_add_pages) (simp add: engine_inv_def)

lemma get_page_score_snd: "snd (get_page_score e p) = snd (add_page e p)"
  by (simp add: get_page_score_def add_page_def Let_def)

lemma updated_page_h_cong:
  "time e' = time e \<Longrightarrow> time_window e' = time_window e \<Longrightarrow>
   updated_page_h e' sc = updated_page_h e sc"
  by (simp add: updated_page_h_def cong: option.case_cong if_cong)

lemma updated_page_a_cong:
  "time e' = time e \<Longrightarrow> time_window e' = time_window e \<Longrightarrow>
   updated_page_a e' sc = updated_page_a e sc"
  by (simp add: updated_page_a_def cong: option.case_cong if_cong)

text \<open>The engine that a hub update and an authority update return.\<close>

lemma update_page_h_shape:
  assumes "get_page_score e p = (Some sc, e1)"
  shows "update_page_h e p =
           Inr (e1\<lparr>scores := hitsdb_set
                       (increase_a_cash (scores e1) (successors (graph e1) p)
                          (h_cash sc / (real (length (successors (graph e1) p)) + 1)))
                       p (updated_page_h e1 sc),
                    virtual_page := (virtual_page e1)
                       \<lparr>a_cash := a_cash (virtual_page e1)
                          + h_cash sc / (real (length (successors (graph e1) p)) + 1)\<rparr>,
                    h_total := h_total e1 + (h_history (updated_page_h e1 sc) - h_history sc),
                    time := time e1 + h_cash sc\<rparr>)"
proof -
  let ?e2 = "e1\<lparr>scores := increase_a_cash (scores e1) (successors (graph e1) p)
                        (h_cash sc / (real (length (successors (graph e1) p)) + 1)),
                 virtual_page := (virtual_page e1)
                    \<lparr>a_cash := a_cash (virtual_page e1)
                       + h_cash sc / (real (length (successors (graph e1) p)) + 1)\<rparr>\<rparr>"
  have "updated_page_h ?e2 sc = updated_page_h e1 sc"
    by (rule updated_page_h_cong) simp_all
  then show ?thesis
    using assms by (simp add: update_page_h_def Let_def)
qed

lemma update_page_a_shape:
  assumes "get_page_score e p = (Some sc, e1)"
  shows "update_page_a e p =
           Inr (e1\<lparr>scores := hitsdb_set
                       (increase_h_cash (scores e1) (predecessors (graph e1) p)
                          (a_cash sc * z_share (relevance_or_half e1 p)
                                         (length (predecessors (graph e1) p))))
                       p (updated_page_a e1 sc),
                    virtual_page := (virtual_page e1)
                       \<lparr>h_cash := h_cash (virtual_page e1)
                          + a_cash sc * (1 - z_share (relevance_or_half e1 p)
                                                (length (predecessors (graph e1) p))
                                             * real (length (predecessors (graph e1) p)))\<rparr>,
                    a_total := a_total e1 + (a_history (updated_page_a e1 sc) - a_history sc),
                    time := time e1 + a_cash sc\<rparr>)"
proof -
  let ?e2 = "e1\<lparr>scores := increase_h_cash (scores e1) (predecessors (graph e1) p)
                        (a_cash sc * z_share (relevance_or_half e1 p)
                                       (length (predecessors (graph e1) p))),
                 virtual_page := (virtual_page e1)
                    \<lparr>h_cash := h_cash (virtual_page e1)
                       + a_cash sc * (1 - z_share (relevance_or_half e1 p)
                                             (length (predecessors (graph e1) p))
                                          * real (length (predecessors (graph e1) p)))\<rparr>\<rparr>"
  have r: "relevance_or_half ?e2 p = relevance_or_half e1 p"
    by (simp add: relevance_or_half_def)
  have "updated_page_a ?e2 sc = updated_page_a e1 sc"
    by (rule updated_page_a_cong) simp_all
  then show ?thesis
    using assms by (simp add: update_page_a_def Let_def)
qed

lemma engine_inv_update_page_h:
  assumes "engine_inv e" and "update_page_h e p = Inr e'"
  shows "engine_inv e'"
proof -
  obtain sc e1 where g: "get_page_score e p = (Some sc, e1)"
    using get_page_score_Some by blast
  then have "e1 = snd (add_page e p)" using get_page_score_snd [of e p] by simp
  then have "engine_inv e1" using assms(1) by (simp add: engine_inv_add_page)
  then show ?thesis
    using assms(2) unfolding update_page_h_shape [OF g]
    by (auto simp: engine_inv_def hitsdb_unique_set hitsdb_unique_increase_a_cash
        get_count_set get_count_increase_a_cash)
qed

lemma engine_inv_update_page_a:
  assumes "engine_inv e" and "update_page_a e p = Inr e'"
  shows "engine_inv e'"
proof -
  obtain sc e1 where g: "get_page_score e p = (Some sc, e1)"
    using get_page_score_Some by blast
  then have "e1 = snd (add_page e p)" using get_page_score_snd [of e p] by simp
  then have "engine_inv e1" using assms(1) by (simp add: engine_inv_add_page)
  then show ?thesis
    using assms(2) unfolding update_page_a_shape [OF g]
    by (auto simp: engine_inv_def hitsdb_unique_set hitsdb_unique_increase_h_cash
        get_count_set get_count_increase_h_cash)
qed

lemma engine_inv_update_virtual_page:
  "engine_inv e \<Longrightarrow> engine_inv (update_virtual_page e)"
  by (simp add: update_virtual_page_def Let_def engine_inv_def increase_all_cash_def
      hitsdb_unique_def get_count_def)

lemma engine_inv_update_pages:
  "engine_inv e \<Longrightarrow> update_pages ms e = Inr e' \<Longrightarrow> engine_inv e'"
proof (induction ms arbitrary: e)
  case Nil
  then show ?case by simp
next
  case (Cons m ms)
  obtain cash p is_hub where m: "m = (cash, p, is_hub)" by (cases m) auto
  obtain e1 where e1: "(if is_hub then update_page_h e p else update_page_a e p) = Inr e1"
    using update_page_h_returns [of e p] update_page_a_returns [of e p]
    by (cases is_hub) auto
  have "engine_inv e1"
  proof (cases is_hub)
    case True
    then have "update_page_h e p = Inr e1" using e1 by simp
    with Cons.prems(1) show ?thesis by (rule engine_inv_update_page_h)
  next
    case False
    then have "update_page_a e p = Inr e1" using e1 by simp
    with Cons.prems(1) show ?thesis by (rule engine_inv_update_page_a)
  qed
  moreover have "update_pages ms e1 = Inr e'"
    using Cons.prems(2) by (simp only: m update_pages.simps e1 sum.case)
  ultimately show ?case by (rule Cons.IH)
qed

lemma engine_inv_update_iterations:
  "engine_inv e \<Longrightarrow> update_iterations i k e m = Inr (e', m') \<Longrightarrow> engine_inv e'"
proof (induction i arbitrary: e m)
  case 0
  then show ?case by simp
next
  case (Suc i)
  obtain e1 where e1: "update_pages (mixed_batch e k) e = Inr e1"
    using update_pages_returns by blast
  have "engine_inv e1" using Suc.prems(1) e1 by (rule engine_inv_update_pages)
  then have "engine_inv (update_virtual_page e1)" by (rule engine_inv_update_virtual_page)
  moreover have
    "update_iterations i k (update_virtual_page e1) (Some (mixed_batch e k)) = Inr (e', m')"
    using Suc.prems(2) by (simp add: Let_def e1)
  ultimately show ?case by (rule Suc.IH)
qed

lemma engine_inv_update: "engine_inv e \<Longrightarrow> engine_inv (engine_of (update e n))"
proof -
  assume inv: "engine_inv e"
  let ?k = "20 * max 1 (length (to_update e))"
  obtain e1 m1 where 1: "update_iterations (nat n) ?k e None = Inr (e1, m1)"
    using update_iterations_returns by blast
  have "engine_inv e1" using inv 1 by (rule engine_inv_update_iterations)
  then have "engine_inv (e1\<lparr>to_update := []\<rparr>)" by (simp add: engine_inv_def)
  then show ?thesis
    using 1 by (cases m1) (simp_all add: update_def Let_def engine_of_def)
qed

section \<open>History monotonicity\<close>

subsection \<open>Histories and signs of the cash, operation by operation of the score table\<close>

lemma map_of_increase:
  "map_of (map (\<lambda>(q, s). if q \<in> S then (q, g s) else (q, s)) rows) p
     = map_option (\<lambda>s. if p \<in> S then g s else s) (map_of rows p)"
  by (induction rows) auto

lemma map_of_set:
  "map_of (map (\<lambda>(q, old). if q = p then (q, t) else (q, old)) rows) r
     = (if r = p then map_option (\<lambda>s. t) (map_of rows p) else map_of rows r)"
  by (induction rows) auto

lemma hitsdb_history_increase_a_cash:
  "hitsdb_history (increase_a_cash db ns c) p = hitsdb_history db p"
  by (simp add: hitsdb_history_def hitsdb_get_def increase_a_cash_def map_of_increase
      split: option.splits)

lemma hitsdb_history_increase_h_cash:
  "hitsdb_history (increase_h_cash db ns c) p = hitsdb_history db p"
  by (simp add: hitsdb_history_def hitsdb_get_def increase_h_cash_def map_of_increase
      split: option.splits)

lemma hitsdb_history_increase_all_cash:
  "hitsdb_history (increase_all_cash db h a) p = hitsdb_history db p"
  by (simp add: hitsdb_history_def hitsdb_get_def increase_all_cash_def split: option.splits)

lemma hitsdb_history_set:
  "hitsdb_history (hitsdb_set db p s) r
     = (if r = p then map_option (\<lambda>x. (h_history s, a_history s)) (hitsdb_history db p)
        else hitsdb_history db r)"
  by (simp add: hitsdb_history_def hitsdb_get_def hitsdb_set_def map_of_set stored_def
      split: option.splits)

lemma hitsdb_history_add:
  "hitsdb_history db r = Some x \<Longrightarrow> hitsdb_history (hitsdb_add db p s) r = Some x"
  by (auto simp: hitsdb_history_def hitsdb_get_def hitsdb_add_def hitsdb_contains_def
      split: option.splits)

lemma hitsdb_get_add_absent:
  assumes "\<not> hitsdb_contains db p"
  shows "hitsdb_get (hitsdb_add db p s) p = Some s"
proof -
  have n: "map_of (page_score db) p = None"
    using assms by (simp add: hitsdb_contains_def)
  have "map_of (page_score db @ [(p, stored db s)]) p = Some (stored db s)"
    using n by (simp add: map_add_def)
  then show ?thesis
    using assms by (simp add: hitsdb_get_def hitsdb_add_def stored_def)
qed

lemma rows_nonneg_get:
  assumes "rows_nonneg db" and "hitsdb_get db p = Some sc"
  shows "0 \<le> h_cash sc \<and> 0 \<le> a_cash sc"
proof -
  obtain s0 where s0: "map_of (page_score db) p = Some s0"
    and sc: "sc = s0\<lparr>h_cash := h_cash s0 + h_cash_increase db,
                      a_cash := a_cash s0 + a_cash_increase db\<rparr>"
    using assms(2) by (auto simp: hitsdb_get_def split: option.splits)
  have "(p, s0) \<in> set (page_score db)" using s0 by (rule map_of_SomeD)
  then show ?thesis
    using assms(1) by (auto simp: rows_nonneg_def list_all_iff sc)
qed

lemma rows_nonneg_add:
  "rows_nonneg db \<Longrightarrow> 0 \<le> h_cash s \<Longrightarrow> 0 \<le> a_cash s \<Longrightarrow> rows_nonneg (hitsdb_add db p s)"
  by (simp add: rows_nonneg_def hitsdb_add_def stored_def)

lemma rows_nonneg_set:
  "rows_nonneg db \<Longrightarrow> 0 \<le> h_cash s \<Longrightarrow> 0 \<le> a_cash s \<Longrightarrow> rows_nonneg (hitsdb_set db p s)"
  by (auto simp: rows_nonneg_def hitsdb_set_def stored_def list_all_iff split: if_splits)

lemma rows_nonneg_increase_a_cash:
  "rows_nonneg db \<Longrightarrow> 0 \<le> c \<Longrightarrow> rows_nonneg (increase_a_cash db ns c)"
  by (fastforce simp: rows_nonneg_def increase_a_cash_def list_all_iff split: if_splits)

lemma rows_nonneg_increase_h_cash:
  "rows_nonneg db \<Longrightarrow> 0 \<le> c \<Longrightarrow> rows_nonneg (increase_h_cash db ns c)"
  by (fastforce simp: rows_nonneg_def increase_h_cash_def list_all_iff split: if_splits)

lemma rows_nonneg_increase_all_cash:
  "rows_nonneg db \<Longrightarrow> 0 \<le> h \<Longrightarrow> 0 \<le> a \<Longrightarrow> rows_nonneg (increase_all_cash db h a)"
  by (fastforce simp: rows_nonneg_def increase_all_cash_def list_all_iff)

lemma history_le_refl: "history_le db db"
  by (simp add: history_le_def)

lemma history_le_trans:
  assumes "history_le db1 db2" and "history_le db2 db3"
  shows "history_le db1 db3"
  unfolding history_le_def
proof (intro allI impI)
  fix p h a assume "hitsdb_history db1 p = Some (h, a)"
  then obtain h2 a2 where 2: "hitsdb_history db2 p = Some (h2, a2)" "h \<le> h2" "a \<le> a2"
    using assms(1) unfolding history_le_def by blast
  then obtain h3 a3 where 3: "hitsdb_history db3 p = Some (h3, a3)" "h2 \<le> h3" "a2 \<le> a3"
    using assms(2) unfolding history_le_def by blast
  show "\<exists>h' a'. hitsdb_history db3 p = Some (h', a') \<and> h \<le> h' \<and> a \<le> a'"
    using 2 3 by (intro exI [of _ h3] exI [of _ a3]) simp
qed

lemma history_le_eq:
  "(\<And>p. hitsdb_history db' p = hitsdb_history db p) \<Longrightarrow> history_le db db'"
  by (simp add: history_le_def)

subsection \<open>Histories and signs of the cash, step by step of the engine\<close>

lemma monotone_setting_step:
  "monotone_setting e \<Longrightarrow> mono_step e e' \<Longrightarrow> monotone_setting e'"
  by (simp add: monotone_setting_def mono_step_def no_time_window_def shares_nonneg_def
      relevance_or_half_def)

lemma mono_step_refl: "cash_nonneg e \<Longrightarrow> mono_step e e"
  by (simp add: mono_step_def history_le_refl)

lemma mono_step_trans: "mono_step e1 e2 \<Longrightarrow> mono_step e2 e3 \<Longrightarrow> mono_step e1 e3"
  using history_le_trans by (auto simp: mono_step_def)

lemma mono_step_add_page:
  assumes "monotone_setting e"
  shows "mono_step e (snd (add_page e p))"
proof (cases "hitsdb_contains (scores e) p")
  case True
  then show ?thesis
    using assms by (simp add: add_page_def mono_step_refl monotone_setting_def)
next
  case False
  have c: "cash_nonneg e" using assms by (simp add: monotone_setting_def)
  have "history_le (scores e) (hitsdb_add (scores e) p s)" for s
    unfolding history_le_def using hitsdb_history_add by blast
  then show ?thesis
    using False c
    by (simp add: add_page_def Let_def mono_step_def cash_nonneg_def rows_nonneg_add)
qed

lemma get_page_score_get:
  assumes "get_page_score e p = (Some sc, e1)"
  shows "e1 = snd (add_page e p) \<and> hitsdb_get (scores e1) p = Some sc"
proof (cases "hitsdb_contains (scores e) p")
  case True
  then show ?thesis
    using assms by (auto simp: get_page_score_present add_page_def)
next
  case False
  then show ?thesis
    using assms
    by (auto simp: get_page_score_absent add_page_def Let_def hitsdb_get_add_absent)
qed

lemma no_window_updated_page_h:
  "no_time_window e \<Longrightarrow>
   updated_page_h e sc = \<lparr>h_history = h_history sc + h_cash sc, h_cash = 0, h_last = time e,
                            a_history = a_history sc, a_cash = a_cash sc, a_last = a_last sc\<rparr>"
  by (auto simp: no_time_window_def updated_page_h_def split: option.splits)

lemma no_window_updated_page_a:
  "no_time_window e \<Longrightarrow>
   updated_page_a e sc = \<lparr>h_history = h_history sc, h_cash = h_cash sc, h_last = h_last sc,
                            a_history = a_history sc + a_cash sc, a_cash = 0, a_last = time e\<rparr>"
  by (auto simp: no_time_window_def updated_page_a_def split: option.splits)

lemma history_le_set:
  assumes "hitsdb_get db p = Some sc"
    and "h_history sc \<le> h_history s" and "a_history sc \<le> a_history s"
    and "\<And>r. hitsdb_history db1 r = hitsdb_history db r"
  shows "history_le db (hitsdb_set db1 p s)"
  unfolding history_le_def
proof (intro allI impI)
  fix r h a assume r: "hitsdb_history db r = Some (h, a)"
  have p: "hitsdb_history db p = Some (h_history sc, a_history sc)"
    using assms(1) by (simp add: hitsdb_history_def)
  show "\<exists>h' a'. hitsdb_history (hitsdb_set db1 p s) r = Some (h', a') \<and> h \<le> h' \<and> a \<le> a'"
  proof (cases "r = p")
    case True
    then show ?thesis
      using r p assms(2,3) by (simp add: hitsdb_history_set assms(4))
  next
    case False
    then show ?thesis
      using r by (simp add: hitsdb_history_set assms(4))
  qed
qed

lemma mono_step_update_page_h:
  assumes "monotone_setting e" and "update_page_h e p = Inr e'"
  shows "mono_step e e'"
proof -
  obtain sc e1 where g: "get_page_score e p = (Some sc, e1)"
    using get_page_score_Some by blast
  then have e1: "e1 = snd (add_page e p)" and sc: "hitsdb_get (scores e1) p = Some sc"
    using get_page_score_get by blast+
  have 1: "mono_step e e1" unfolding e1 using assms(1) by (rule mono_step_add_page)
  then have m1: "monotone_setting e1" using assms(1) monotone_setting_step by blast
  then have nw: "no_time_window e1" and rows: "rows_nonneg (scores e1)"
    and vp: "0 \<le> h_cash (virtual_page e1)" "0 \<le> a_cash (virtual_page e1)"
    by (simp_all add: monotone_setting_def cash_nonneg_def)
  have cash: "0 \<le> h_cash sc" "0 \<le> a_cash sc"
    using rows_nonneg_get [OF rows sc] by simp_all
  let ?ns = "successors (graph e1) p"
  let ?c = "h_cash sc / (real (length ?ns) + 1)"
  have c: "0 \<le> ?c" using cash(1) by simp
  let ?db1 = "increase_a_cash (scores e1) ?ns ?c"
  let ?new = "updated_page_h e1 sc"
  have new: "?new = \<lparr>h_history = h_history sc + h_cash sc, h_cash = 0, h_last = time e1,
                      a_history = a_history sc, a_cash = a_cash sc, a_last = a_last sc\<rparr>"
    using nw by (rule no_window_updated_page_h)
  have e': "e' = e1\<lparr>scores := hitsdb_set ?db1 p ?new,
                    virtual_page := (virtual_page e1)\<lparr>a_cash := a_cash (virtual_page e1) + ?c\<rparr>,
                    h_total := h_total e1 + (h_history ?new - h_history sc),
                    time := time e1 + h_cash sc\<rparr>"
    using assms(2) unfolding update_page_h_shape [OF g] by simp
  have r: "rows_nonneg (hitsdb_set ?db1 p ?new)"
    using rows c cash(2) by (simp add: rows_nonneg_set rows_nonneg_increase_a_cash new)
  have h: "history_le (scores e1) (hitsdb_set ?db1 p ?new)"
    using cash(1) by (intro history_le_set [OF sc]) (simp_all add: new hitsdb_history_increase_a_cash)
  have "mono_step e1 e'"
    unfolding e' using r h vp c by (simp add: mono_step_def cash_nonneg_def)
  with 1 show ?thesis by (rule mono_step_trans)
qed

lemma mono_step_update_page_a:
  assumes "monotone_setting e" and "update_page_a e p = Inr e'"
  shows "mono_step e e'"
proof -
  obtain sc e1 where g: "get_page_score e p = (Some sc, e1)"
    using get_page_score_Some by blast
  then have e1: "e1 = snd (add_page e p)" and sc: "hitsdb_get (scores e1) p = Some sc"
    using get_page_score_get by blast+
  have 1: "mono_step e e1" unfolding e1 using assms(1) by (rule mono_step_add_page)
  then have m1: "monotone_setting e1" using assms(1) monotone_setting_step by blast
  then have nw: "no_time_window e1" and rows: "rows_nonneg (scores e1)"
    and vp: "0 \<le> h_cash (virtual_page e1)" "0 \<le> a_cash (virtual_page e1)"
    and sh: "shares_nonneg e1 p"
    by (simp_all add: monotone_setting_def cash_nonneg_def)
  have cash: "0 \<le> h_cash sc" "0 \<le> a_cash sc"
    using rows_nonneg_get [OF rows sc] by simp_all
  let ?ns = "predecessors (graph e1) p"
  let ?z = "z_share (relevance_or_half e1 p) (length ?ns)"
  have z: "0 \<le> ?z" "0 \<le> 1 - ?z * real (length ?ns)"
    using sh by (simp_all add: shares_nonneg_def Let_def)
  have c: "0 \<le> a_cash sc * ?z" "0 \<le> a_cash sc * (1 - ?z * real (length ?ns))"
    using cash(2) z by simp_all
  let ?db1 = "increase_h_cash (scores e1) ?ns (a_cash sc * ?z)"
  let ?new = "updated_page_a e1 sc"
  have new: "?new = \<lparr>h_history = h_history sc, h_cash = h_cash sc, h_last = h_last sc,
                      a_history = a_history sc + a_cash sc, a_cash = 0, a_last = time e1\<rparr>"
    using nw by (rule no_window_updated_page_a)
  have e': "e' = e1\<lparr>scores := hitsdb_set ?db1 p ?new,
                    virtual_page := (virtual_page e1)
                       \<lparr>h_cash := h_cash (virtual_page e1)
                                    + a_cash sc * (1 - ?z * real (length ?ns))\<rparr>,
                    a_total := a_total e1 + (a_history ?new - a_history sc),
                    time := time e1 + a_cash sc\<rparr>"
    using assms(2) unfolding update_page_a_shape [OF g] by simp
  have r: "rows_nonneg (hitsdb_set ?db1 p ?new)"
    using rows c(1) cash(1) by (simp add: rows_nonneg_set rows_nonneg_increase_h_cash new)
  have h: "history_le (scores e1) (hitsdb_set ?db1 p ?new)"
    using cash(2) by (intro history_le_set [OF sc]) (simp_all add: new hitsdb_history_increase_h_cash)
  have "mono_step e1 e'"
    unfolding e' using r h vp c(2) by (simp add: mono_step_def cash_nonneg_def)
  with 1 show ?thesis by (rule mono_step_trans)
qed

lemma mono_step_update_virtual_page:
  assumes "monotone_setting e"
  shows "mono_step e (update_virtual_page e)"
proof (cases "0 < n_pages e")
  case False
  then show ?thesis
    using assms by (simp add: update_virtual_page_def mono_step_refl monotone_setting_def)
next
  case True
  have rows: "rows_nonneg (scores e)"
    and vp: "0 \<le> h_cash (virtual_page e)" "0 \<le> a_cash (virtual_page e)"
    using assms by (simp_all add: monotone_setting_def cash_nonneg_def)
  have "rows_nonneg (increase_all_cash (scores e)
          (a_cash (virtual_page e) / real (n_pages e))
          (h_cash (virtual_page e) / real (n_pages e)))"
    using rows vp by (intro rows_nonneg_increase_all_cash) simp_all
  moreover have "history_le (scores e) (increase_all_cash (scores e) h a)" for h a
    by (rule history_le_eq) (rule hitsdb_history_increase_all_cash)
  ultimately show ?thesis
    using True
    by (simp add: update_virtual_page_def Let_def mono_step_def cash_nonneg_def
        updated_page_h_cash updated_page_a_cash)
qed

subsection \<open>Histories over \<^verbatim>\<open>update\<close> and over runs of operations\<close>

lemma mono_step_update_pages:
  "monotone_setting e \<Longrightarrow> update_pages ms e = Inr e' \<Longrightarrow> mono_step e e'"
proof (induction ms arbitrary: e)
  case Nil
  then show ?case by (simp add: mono_step_refl monotone_setting_def)
next
  case (Cons m ms)
  obtain cash p is_hub where m: "m = (cash, p, is_hub)" by (cases m) auto
  obtain e1 where e1: "(if is_hub then update_page_h e p else update_page_a e p) = Inr e1"
    using update_page_h_returns [of e p] update_page_a_returns [of e p]
    by (cases is_hub) auto
  have 1: "mono_step e e1"
  proof (cases is_hub)
    case True
    then have "update_page_h e p = Inr e1" using e1 by simp
    with Cons.prems(1) show ?thesis by (rule mono_step_update_page_h)
  next
    case False
    then have "update_page_a e p = Inr e1" using e1 by simp
    with Cons.prems(1) show ?thesis by (rule mono_step_update_page_a)
  qed
  have "monotone_setting e1" using Cons.prems(1) 1 by (rule monotone_setting_step)
  moreover have "update_pages ms e1 = Inr e'"
    using Cons.prems(2) by (simp only: m update_pages.simps e1 sum.case)
  ultimately have "mono_step e1 e'" by (rule Cons.IH)
  with 1 show ?case by (rule mono_step_trans)
qed

lemma mono_step_update_iterations:
  "monotone_setting e \<Longrightarrow> update_iterations i k e m = Inr (e', m') \<Longrightarrow> mono_step e e'"
proof (induction i arbitrary: e m)
  case 0
  then show ?case by (simp add: mono_step_refl monotone_setting_def)
next
  case (Suc i)
  obtain e1 where e1: "update_pages (mixed_batch e k) e = Inr e1"
    using update_pages_returns by blast
  have 1: "mono_step e e1" using Suc.prems(1) e1 by (rule mono_step_update_pages)
  have s1: "monotone_setting e1" using Suc.prems(1) 1 by (rule monotone_setting_step)
  have 2: "mono_step e1 (update_virtual_page e1)"
    using s1 by (rule mono_step_update_virtual_page)
  have s2: "monotone_setting (update_virtual_page e1)"
    using s1 2 by (rule monotone_setting_step)
  have "update_iterations i k (update_virtual_page e1) (Some (mixed_batch e k)) = Inr (e', m')"
    using Suc.prems(2) by (simp add: Let_def e1)
  with s2 have "mono_step (update_virtual_page e1) e'" by (rule Suc.IH)
  with 1 2 show ?case by (blast intro: mono_step_trans)
qed

lemma mono_step_update:
  assumes "monotone_setting e"
  shows "mono_step e (engine_of (update e n))"
proof -
  let ?k = "20 * max 1 (length (to_update e))"
  obtain e1 m1 where 1: "update_iterations (nat n) ?k e None = Inr (e1, m1)"
    using update_iterations_returns by blast
  have "mono_step e e1" using assms 1 by (rule mono_step_update_iterations)
  then have "mono_step e (e1\<lparr>to_update := []\<rparr>)"
    by (simp add: mono_step_def cash_nonneg_def)
  then show ?thesis
    using 1 by (cases m1) (simp_all add: update_def Let_def engine_of_def)
qed

lemma mono_step_get_scores:
  assumes "monotone_setting e"
  shows "mono_step e (engine_of (get_scores e p))"
proof -
  obtain sc e1 where g: "get_page_score e p = (Some sc, e1)"
    using get_page_score_Some by blast
  then have "e1 = snd (add_page e p)" using get_page_score_get by blast
  then have "mono_step e e1" using assms by (simp add: mono_step_add_page)
  then show ?thesis using g by (simp add: get_scores_def engine_of_def)
qed

lemma mono_step_run_op:
  assumes "monotone_setting e"
  shows "mono_step e (run_op e op)"
proof (cases op)
  case (Op_add_page p)
  then show ?thesis using assms by (simp add: mono_step_add_page)
next
  case (Op_mark_update p)
  then show ?thesis
    using assms
    by (simp add: mark_update_def mono_step_def monotone_setting_def cash_nonneg_def
        history_le_refl)
next
  case (Op_update n)
  then show ?thesis using assms by (simp add: mono_step_update)
next
  case (Op_get_scores p)
  then show ?thesis using assms by (simp add: mono_step_get_scores)
qed

lemma mono_step_run_ops:
  "monotone_setting e \<Longrightarrow> mono_step e (run_ops e ops)"
  unfolding run_ops_def
proof (induction ops arbitrary: e)
  case Nil
  then show ?case by (simp add: mono_step_refl monotone_setting_def)
next
  case (Cons op ops)
  have 1: "mono_step e (run_op e op)" using Cons.prems by (rule mono_step_run_op)
  have "monotone_setting (run_op e op)" using Cons.prems 1 by (rule monotone_setting_step)
  then have "mono_step (run_op e op) (foldl run_op (run_op e op) ops)" by (rule Cons.IH)
  with 1 show ?case by (simp add: mono_step_trans)
qed

text \<open>Where no share is negative.\<close>

lemma z_share_virtual:
  assumes "0 < N"
  shows "1 - z_share r N * real N = (1 - r) * (1 - 2 * r * (real N - 1) / (real N + 1))"
proof -
  have n: "real N \<noteq> 0" "real N + 1 \<noteq> 0" using assms by simp_all
  have "z_share r N * real N = 2 * r * (2 * real N / (real N + 1) * (1 - r) + (r - 1 / 2))"
    using assms n by (simp add: z_share_def)
  also have "\<dots> = 1 - (1 - r) * (1 - 2 * r * (real N - 1) / (real N + 1))"
    using n by (simp add: field_simps)
  finally show ?thesis by simp
qed

lemma shares_nonneg_unknown:
  assumes "relevance e p = None"
  shows "shares_nonneg e p"
  using assms z_share_nonneg [of "1 / 2"] z_share_half_virtual
  by (simp add: shares_nonneg_def relevance_or_half_def Let_def)

lemma shares_nonneg_few_predecessors:
  assumes "0 \<le> relevance_or_half e p" and "relevance_or_half e p \<le> 1"
    and "length (predecessors (graph e) p) \<le> 3"
  shows "shares_nonneg e p"
proof -
  let ?r = "relevance_or_half e p"
  let ?N = "length (predecessors (graph e) p)"
  have z: "0 \<le> z_share ?r ?N" using assms(1,2) by (rule z_share_nonneg)
  have "0 \<le> 1 - z_share ?r ?N * real ?N"
  proof (cases "0 < ?N")
    case False
    then show ?thesis by (simp add: z_share_def)
  next
    case True
    let ?X = "2 * (real ?N - 1) / (real ?N + 1)"
    have "2 * (real ?N - 1) \<le> real ?N + 1" using assms(3) by simp
    then have x1: "?X \<le> 1" by (simp add: field_simps)
    have "Suc 0 \<le> ?N" using True by (rule Suc_leI)
    then have "1 \<le> real ?N" by (metis of_nat_1 of_nat_le_iff One_nat_def)
    then have x0: "0 \<le> ?X" by simp
    have le: "?r * ?X \<le> 1 * 1"
      using assms(1,2) x0 x1 by (intro mult_mono) simp_all
    have eq: "2 * ?r * (real ?N - 1) / (real ?N + 1) = ?r * ?X"
      by (simp add: mult.assoc mult.left_commute)
    have "0 \<le> 1 - ?r * ?X" using le by linarith
    then have "0 \<le> 1 - 2 * ?r * (real ?N - 1) / (real ?N + 1)" by (simp only: eq)
    then have "0 \<le> (1 - ?r) * (1 - 2 * ?r * (real ?N - 1) / (real ?N + 1))"
      using assms(2) by simp
    then show ?thesis using z_share_virtual [OF True, of ?r] by simp
  qed
  with z show ?thesis by (simp add: shares_nonneg_def Let_def)
qed

subsection \<open>The steps of the engine on an engine written out field by field\<close>

text \<open>
  Without a time window and on a page with a score row, each step is one pass over the
  rows. The lemmas are the definitions unfolded; they keep the evaluation of a long run
  on concrete data short.
\<close>

lemma update_page_h_rows:
  assumes "map_of rows p \<noteq> None"
  shows "update_page_h
           \<lparr>graph = g,
            scores = \<lparr>page_score = rows, global_increase_h_cash = gh,
                      global_increase_a_cash = ga, h_cash_increase = dh,
                      a_cash_increase = da\<rparr>,
            n_pages = n, h_total = htot, a_total = atot, relevance = rel, to_update = tu,
            is_closed = cl, time_window = None, time = t, virtual_page = vp\<rparr> p
         = (let s = the (map_of rows p);
                ns = successors g p;
                c = (h_cash s + dh) / (real (length ns) + 1)
            in Inr \<lparr>graph = g,
                    scores = \<lparr>page_score =
                        map (\<lambda>(q, old).
                               if q = p
                               then (q, \<lparr>h_history = h_history s + (h_cash s + dh),
                                         h_cash = 0 - dh, h_last = t,
                                         a_history = a_history s,
                                         a_cash = a_cash s + da - da, a_last = a_last s\<rparr>)
                               else if q \<in> set ns then (q, old\<lparr>a_cash := a_cash old + c\<rparr>)
                               else (q, old)) rows,
                      global_increase_h_cash = gh, global_increase_a_cash = ga,
                      h_cash_increase = dh, a_cash_increase = da\<rparr>,
                    n_pages = n, h_total = htot + (h_cash s + dh), a_total = atot,
                    relevance = rel, to_update = tu, is_closed = cl, time_window = None,
                    time = t + (h_cash s + dh),
                    virtual_page = vp\<lparr>a_cash := a_cash vp + c\<rparr>\<rparr>)"
proof -
  obtain s where s: "map_of rows p = Some s" using assms by blast
  have rows: "map (\<lambda>(q, old). if q = p then (q, u) else (q, old))
                (map (\<lambda>(q, s). if q \<in> S then (q, f s) else (q, s)) rows)
              = map (\<lambda>(q, old). if q = p then (q, u) else if q \<in> S then (q, f old)
                                    else (q, old)) rows" for u S f
    by (induction rows) auto
  show ?thesis
    using s
    by (simp add: update_page_h_def get_page_score_def add_page_def hitsdb_contains_def
        hitsdb_get_def hitsdb_set_def increase_a_cash_def Let_def rows del: map_map)
       (simp add: stored_def updated_page_h_def case_prod_unfold cong: if_cong)
qed

lemma update_page_a_rows:
  assumes "map_of rows p \<noteq> None"
  shows "update_page_a
           \<lparr>graph = g,
            scores = \<lparr>page_score = rows, global_increase_h_cash = gh,
                      global_increase_a_cash = ga, h_cash_increase = dh,
                      a_cash_increase = da\<rparr>,
            n_pages = n, h_total = htot, a_total = atot, relevance = rel, to_update = tu,
            is_closed = cl, time_window = None, time = t, virtual_page = vp\<rparr> p
         = (let s = the (map_of rows p);
                ns = predecessors g p;
                N = length ns;
                z = z_share (case rel p of None \<Rightarrow> 0.5
                             | Some v \<Rightarrow> if v = 0 then 0.5 else v) N;
                c = (a_cash s + da) * z
            in Inr \<lparr>graph = g,
                    scores = \<lparr>page_score =
                        map (\<lambda>(q, old).
                               if q = p
                               then (q, \<lparr>h_history = h_history s,
                                         h_cash = h_cash s + dh - dh, h_last = h_last s,
                                         a_history = a_history s + (a_cash s + da),
                                         a_cash = 0 - da, a_last = t\<rparr>)
                               else if q \<in> set ns then (q, old\<lparr>h_cash := h_cash old + c\<rparr>)
                               else (q, old)) rows,
                      global_increase_h_cash = gh, global_increase_a_cash = ga,
                      h_cash_increase = dh, a_cash_increase = da\<rparr>,
                    n_pages = n, h_total = htot, a_total = atot + (a_cash s + da),
                    relevance = rel, to_update = tu, is_closed = cl, time_window = None,
                    time = t + (a_cash s + da),
                    virtual_page =
                      vp\<lparr>h_cash := h_cash vp + (a_cash s + da) * (1 - z * real N)\<rparr>\<rparr>)"
proof -
  obtain s where s: "map_of rows p = Some s" using assms by blast
  have rows: "map (\<lambda>(q, old). if q = p then (q, u) else (q, old))
                (map (\<lambda>(q, s). if q \<in> S then (q, f s) else (q, s)) rows)
              = map (\<lambda>(q, old). if q = p then (q, u) else if q \<in> S then (q, f old)
                                    else (q, old)) rows" for u S f
    by (induction rows) auto
  show ?thesis
    using s
    by (simp add: update_page_a_def get_page_score_def add_page_def hitsdb_contains_def
        hitsdb_get_def hitsdb_set_def increase_h_cash_def Let_def rows del: map_map)
       (simp add: stored_def updated_page_a_def relevance_or_half_def case_prod_unfold
          cong: if_cong)
qed

lemma update_virtual_page_rows:
  assumes "0 < n"
  shows "update_virtual_page
           \<lparr>graph = g,
            scores = \<lparr>page_score = rows, global_increase_h_cash = gh,
                      global_increase_a_cash = ga, h_cash_increase = dh,
                      a_cash_increase = da\<rparr>,
            n_pages = n, h_total = htot, a_total = atot, relevance = rel, to_update = tu,
            is_closed = cl, time_window = None, time = t,
            virtual_page = \<lparr>h_history = vhh, h_cash = vhc, h_last = vhl,
                            a_history = vah, a_cash = vac, a_last = val_a\<rparr>\<rparr>
         = \<lparr>graph = g,
            scores = \<lparr>page_score = rows, global_increase_h_cash = gh,
                      global_increase_a_cash = ga, h_cash_increase = dh + vac / real n,
                      a_cash_increase = da + vhc / real n\<rparr>,
            n_pages = n, h_total = htot, a_total = atot, relevance = rel, to_update = tu,
            is_closed = cl, time_window = None, time = t,
            virtual_page = \<lparr>h_history = vhh + vhc, h_cash = 0, h_last = t,
                            a_history = vah + vac, a_cash = 0, a_last = t\<rparr>\<rparr>"
  using assms
  by (simp add: update_virtual_page_def increase_all_cash_def updated_page_h_def
      updated_page_a_def Let_def)

lemma mixed_batch_rows:
  "mixed_batch
     \<lparr>graph = g,
      scores = \<lparr>page_score = rows, global_increase_h_cash = gh,
                global_increase_a_cash = ga, h_cash_increase = dh,
                a_cash_increase = da\<rparr>,
      n_pages = n, h_total = htot, a_total = atot, relevance = rel, to_update = tu,
      is_closed = cl, time_window = tw, time = t, virtual_page = vp\<rparr> k
   = take k (rev (sort
       (map (\<lambda>(q, s). (h_cash s + dh, q, True))
            (take k (rev (sort_key (\<lambda>(q, s). h_cash s) rows))) @
        map (\<lambda>(q, s). (a_cash s + da, q, False))
            (take k (rev (sort_key (\<lambda>(q, s). a_cash s) rows))))))"
  by (simp add: mixed_batch_def get_highest_h_cash_def get_highest_a_cash_def limit_def
      order_by_desc_def Let_def case_prod_unfold comp_def)

lemmas rows_eval =
  update_page_h_rows update_page_a_rows update_virtual_page_rows mixed_batch_rows
  update_def hub_pages_def authority_pages_def engine_of_def z_share_def Let_def

subsection \<open>The claim and its limits\<close>

lemma add_pages_parameters:
  "graph (add_pages e ps) = graph e \<and> relevance (add_pages e ps) = relevance e \<and>
   time_window (add_pages e ps) = time_window e"
  unfolding add_pages_def
  by (induction ps arbitrary: e) (simp_all add: add_page_def Let_def)

text \<open>
  C8, as the code has it. Without a time window, from an engine in which no cash is below
  zero (a new engine on a new score table is one) and whose authority updates hand out
  no negative share (as when no relevance is known, or with relevance in \<open>[0, 1]\<close> and at
  most three predecessors per page), no run of \<^verbatim>\<open>add_page\<close>, \<^verbatim>\<open>mark_update\<close>, \<^verbatim>\<open>update\<close>
  and \<^verbatim>\<open>get_scores\<close> decreases the hub history or the authority history of a page.
\<close>

theorem histories_never_decrease:
  assumes "no_time_window e" and "cash_nonneg e" and "\<forall>q. shares_nonneg e q"
    and "history_of e p = Some (h, a)"
  shows "\<exists>h' a'. history_of (run_ops e ops) p = Some (h', a') \<and> h \<le> h' \<and> a \<le> a'"
proof -
  have "monotone_setting e" using assms(1-3) by (simp add: monotone_setting_def)
  then have "mono_step e (run_ops e ops)" by (rule mono_step_run_ops)
  then have "history_le (scores e) (scores (run_ops e ops))" by (simp add: mono_step_def)
  then show ?thesis
    using assms(4) unfolding history_le_def history_of_def by blast
qed

theorem histories_never_decrease_witness:
  "no_time_window engine_pair \<and> cash_nonneg engine_pair \<and>
   (\<forall>q. shares_nonneg engine_pair q) \<and>
   history_of engine_pair ''a'' = Some (0, 0) \<and>
   (\<exists>h' a'. history_of (run_ops engine_pair [Op_update 1, Op_get_scores ''a'']) ''a''
               = Some (h', a') \<and> 0 \<le> h' \<and> 0 \<le> a')"
proof -
  have w: "no_time_window engine_pair"
    using add_pages_parameters
    by (simp add: engine_pair_def OpicHits_init_def no_time_window_def)
  have c: "cash_nonneg engine_pair"
    by (simp add: engine_pair_def engine_eval cash_nonneg_def rows_nonneg_def graph_pair_def)
  have "relevance engine_pair q = None" for q
    using add_pages_parameters by (simp add: engine_pair_def OpicHits_init_def no_relevance_def)
  then have s: "\<forall>q. shares_nonneg engine_pair q"
    by (simp add: shares_nonneg_unknown)
  have h: "history_of engine_pair ''a'' = Some (0, 0)"
    by (simp add: engine_pair_def engine_eval history_of_def hitsdb_history_def graph_pair_def)
  from histories_never_decrease [OF w c s h] w c s h show ?thesis by blast
qed

lemma engine_7x_rows:
  "engine_7x =
     \<lparr>graph = graph_7x,
      scores =
        \<lparr>page_score =
           [(''a'', \<lparr>h_history = 0, h_cash = 1, h_last = 0,
                     a_history = 0, a_cash = 1, a_last = 0\<rparr>),
            (''b'', \<lparr>h_history = 0, h_cash = 1, h_last = 0,
                     a_history = 0, a_cash = 1, a_last = 0\<rparr>),
            (''c'', \<lparr>h_history = 0, h_cash = 1, h_last = 0,
                     a_history = 0, a_cash = 1, a_last = 0\<rparr>),
            (''d'', \<lparr>h_history = 0, h_cash = 1, h_last = 0,
                     a_history = 0, a_cash = 1, a_last = 0\<rparr>),
            (''e'', \<lparr>h_history = 0, h_cash = 1, h_last = 0,
                     a_history = 0, a_cash = 1, a_last = 0\<rparr>),
            (''f'', \<lparr>h_history = 0, h_cash = 1, h_last = 0,
                     a_history = 0, a_cash = 1, a_last = 0\<rparr>),
            (''g'', \<lparr>h_history = 0, h_cash = 1, h_last = 0,
                     a_history = 0, a_cash = 1, a_last = 0\<rparr>),
            (''x'', \<lparr>h_history = 0, h_cash = 1, h_last = 0,
                     a_history = 0, a_cash = 1, a_last = 0\<rparr>)],
         global_increase_h_cash = 0, global_increase_a_cash = 0,
         h_cash_increase = 0, a_cash_increase = 0\<rparr>,
      n_pages = 8, h_total = 0, a_total = 0, relevance = relevance_3_4,
      to_update = [], is_closed = False, time_window = None, time = 0,
      virtual_page = \<lparr>h_history = 0, h_cash = 1, h_last = 0,
                      a_history = 0, a_cash = 1, a_last = 0\<rparr>\<rparr>"
  by (simp add: engine_7x_def engine_eval graph_7x_def seven_pages_def)

lemma graph_7x_neighbours:
  "successors graph_7x p = (if p \<in> set seven_pages then removeAll p seven_pages else [])"
  "predecessors graph_7x p = (if p \<in> set seven_pages then removeAll p seven_pages else [])"
  by (simp_all add: graph_7x_def)

lemmas engine_7x_eval =
  engine_7x_rows graph_7x_neighbours seven_pages_def relevance_3_4_def rows_eval run_ops_def
  history_of_def hitsdb_history_def hitsdb_get_def eval_nat_numeral

lemma engine_7x_after_2:
  "history_of (run_ops engine_7x [Op_update 2]) ''x''
     = Some (19653330595 / 13492928512, 264566295253 / 215886856192)"
  by (simp add: engine_7x_eval cong: let_weak_cong prod.case_cong_weak)

lemma engine_7x_after_3:
  "history_of (run_ops engine_7x [Op_update 2, Op_update 1]) ''x''
     = Some (1174156028831286998298499 / 652499885470514042372096,
             44575401166082833677514607 / 36539993586348786372837376)"
  by (simp add: engine_7x_eval cong: let_weak_cong prod.case_cong_weak)

text \<open>
  C8 as stated fails. Seven pages that link to each other, a page \<open>x\<close> without links,
  relevance 0.75 everywhere, a new engine on a new score table, no time window. Each of
  the seven has six predecessors, so that its authority update gives \<open>-1/56\<close> of its
  cash to the virtual page; after \<^verbatim>\<open>update(2)\<close> the authority cash of \<open>x\<close> is below zero, and
  one more \<^verbatim>\<open>update(1)\<close> takes the authority history of \<open>x\<close> down.
\<close>

theorem histories_decrease_counterexample:
  "no_time_window engine_7x \<and>
   history_of (run_ops engine_7x [Op_update 2]) ''x''
     = Some (19653330595 / 13492928512, 264566295253 / 215886856192) \<and>
   history_of (run_ops engine_7x [Op_update 2, Op_update 1]) ''x''
     = Some (1174156028831286998298499 / 652499885470514042372096,
             44575401166082833677514607 / 36539993586348786372837376) \<and>
   (44575401166082833677514607 / 36539993586348786372837376 :: real)
     < 264566295253 / 215886856192"
  using engine_7x_after_2 engine_7x_after_3
  by (simp add: engine_7x_rows no_time_window_def)

section \<open>The relevance that the authority update reads\<close>

text \<open>
  \<^verbatim>\<open>r = self._relevance.get(page_id) or 0.5\<close>: a stored relevance of 0.0 is read as 0.5.
  With \<open>N > 0\<close> predecessors the authority update of such a page then gives each of them
  the share \<open>1/(N+1)\<close> of its authority cash, and the same share to the virtual page.
\<close>

lemma update_page_a_stored_zero:
  assumes "relevance e p = Some 0" and "hitsdb_get (scores e) p = Some sc"
    and "predecessors (graph e) p = pred" and "pred \<noteq> []"
  shows "\<exists>e'. update_page_a e p = Inr e' \<and>
           scores e' = hitsdb_set (increase_h_cash (scores e) pred
                                     (a_cash sc / (real (length pred) + 1)))
                                  p (updated_page_a e sc) \<and>
           h_cash (virtual_page e')
             = h_cash (virtual_page e) + a_cash sc / (real (length pred) + 1)"
proof -
  let ?N = "length pred"
  have N: "0 < ?N" using assms(4) by simp
  have c: "hitsdb_contains (scores e) p"
    using assms(2) by (auto simp: hitsdb_contains_def hitsdb_get_def split: option.splits)
  have g: "get_page_score e p = (Some sc, e)"
    using get_page_score_present [OF c] assms(2) by simp
  have r: "relevance_or_half e p = 1 / 2"
    using assms(1) by (simp add: relevance_or_half_def)
  have z: "z_share (relevance_or_half e p) ?N = 1 / (real ?N + 1)"
    unfolding r using N by (rule z_share_half)
  have hubs: "a_cash sc * z_share (relevance_or_half e p) ?N = a_cash sc / (real ?N + 1)"
    unfolding z by simp
  have "1 - 1 / (real ?N + 1) * real ?N = 1 / (real ?N + 1)"
    by (simp add: field_simps)
  then have vp: "a_cash sc * (1 - z_share (relevance_or_half e p) ?N * real ?N)
                   = a_cash sc / (real ?N + 1)"
    unfolding z by simp
  have u: "updated_page_a (e\<lparr>scores := s, virtual_page := w\<rparr>) sc = updated_page_a e sc"
    for s w
    by (rule updated_page_a_cong) simp_all
  show ?thesis
    using g assms(3) by (simp add: update_page_a_def Let_def u hubs vp)
qed

lemma engine_link_rows:
  "engine_link =
     \<lparr>graph = graph_link,
      scores =
        \<lparr>page_score =
           [(''a'', \<lparr>h_history = 0, h_cash = 1, h_last = 0,
                     a_history = 0, a_cash = 1, a_last = 0\<rparr>),
            (''b'', \<lparr>h_history = 0, h_cash = 1, h_last = 0,
                     a_history = 0, a_cash = 1, a_last = 0\<rparr>)],
         global_increase_h_cash = 0, global_increase_a_cash = 0,
         h_cash_increase = 0, a_cash_increase = 0\<rparr>,
      n_pages = 2, h_total = 0, a_total = 0, relevance = relevance_0,
      to_update = [], is_closed = False, time_window = None, time = 0,
      virtual_page = \<lparr>h_history = 0, h_cash = 1, h_last = 0,
                      a_history = 0, a_cash = 1, a_last = 0\<rparr>\<rparr>"
  by (simp add: engine_link_def engine_eval graph_link_def)

lemma graph_link_neighbours:
  "successors graph_link p = (if p = ''a'' then [''b''] else [])"
  "predecessors graph_link p = (if p = ''b'' then [''a''] else [])"
  by (simp_all add: graph_link_def)

lemmas engine_link_eval =
  engine_link_rows graph_link_neighbours relevance_0_def rows_eval
  history_of_def hitsdb_history_def hitsdb_get_def eval_nat_numeral

text \<open>
  C7. The share \<open>z\<close> of the claim is 0 at relevance 0, and the comment in
  \<^verbatim>\<open>_update_page_a\<close> says that then no cash goes back to the hubs. The authority update
  does not compute that share for a page whose stored relevance is 0.0. In a new engine
  over the link from \<open>a\<close> to \<open>b\<close>, with relevance 0.0 stored for \<open>b\<close>, the authority update
  of \<open>b\<close> computes the share for relevance 0.5, which is \<open>1/2\<close> with one predecessor: the
  hub cash of \<open>a\<close> goes from 1 to \<open>3/2\<close> and the virtual page gets \<open>1/2\<close>, where the share 0
  leaves \<open>a\<close> at 1 and gives the virtual page 1. Through \<^verbatim>\<open>update(1)\<close>, whose second step is
  that authority update, the hub history of \<open>a\<close> ends at \<open>3/2\<close>.
\<close>

theorem stored_relevance_zero_shares_as_half:
  "relevance engine_link ''b'' = Some 0 \<and>
   predecessors (graph engine_link) ''b'' = [''a''] \<and>
   z_share 0 1 = 0 \<and>
   z_share (relevance_or_half engine_link ''b'') 1 = 1 / 2 \<and>
   (\<exists>e'. update_page_a engine_link ''b'' = Inr e' \<and>
         hitsdb_get (scores e') ''a''
           = Some \<lparr>h_history = 0, h_cash = 3 / 2, h_last = 0,
                   a_history = 0, a_cash = 1, a_last = 0\<rparr> \<and>
         virtual_page e'
           = \<lparr>h_history = 0, h_cash = 3 / 2, h_last = 0,
              a_history = 0, a_cash = 1, a_last = 0\<rparr>) \<and>
   (\<exists>e'. update engine_link 1 = Inr (e', [''b'', ''a''], [''b'', ''a'']) \<and>
         history_of e' ''a'' = Some (3 / 2, 1) \<and> history_of e' ''b'' = Some (1, 1))"
  by (simp add: engine_link_eval relevance_or_half_def cong: let_weak_cong prod.case_cong_weak)

end
